theory Spec2Isabelle
  imports Main
begin

section \<open>Python values, enumerations and exceptions\<close>

text \<open>
  The module \<^verbatim>\<open>freshmaker/models.py\<close> declares the tables \<^verbatim>\<open>events\<close> and
  \<^verbatim>\<open>artifact_builds\<close> and the operations on their rows. Arguments that the code
  inspects dynamically (the \<^verbatim>\<open>state\<close> and \<^verbatim>\<open>type\<close> given to a validator, the
  \<^verbatim>\<open>event_type\<close> given to \<^verbatim>\<open>Event.create\<close>) are Python values: \<^verbatim>\<open>None\<close>, an
  integer, a string, or one of the event classes.
\<close>

datatype event_class =
    MBSModuleStateChangeEvent
  | GitModuleMetadataChangeEvent
  | GitRPMSpecChangeEvent
  | TestingEvent
  | GitDockerfileChangeEvent
  | BodhiUpdateCompleteStableEvent
  | KojiTaskStateChangeEvent
  | BrewSignRPMEvent
  | ErrataAdvisoryRPMsSignedEvent
  | BaseEvent

datatype pyval = PNone | PInt int | PStr string | PClass event_class

text \<open>
  An \<^verbatim>\<open>enum.Enum\<close> class is the list of its members in definition order, each with
  its name and its integer value: \<^verbatim>\<open>list(E)\<close>.
\<close>

type_synonym py_enum = "(string \<times> int) list"

datatype error =
    ValueError string pyval py_enum
      \<comment> \<open>raised by a validator: \<^verbatim>\<open>"%s: %s, not in %r" % (key, field, list(E))\<close>\<close>
  | ValueError_not_a_member pyval py_enum
      \<comment> \<open>raised by \<^verbatim>\<open>E(value)\<close> when no member has that value\<close>
  | KeyError pyval
      \<comment> \<open>raised by \<^verbatim>\<open>E[name]\<close> and by a dictionary lookup\<close>
  | AttributeError
      \<comment> \<open>attribute access on \<^verbatim>\<open>None\<close>\<close>

text \<open>\<^verbatim>\<open>str.lower\<close> and \<^verbatim>\<open>str.upper\<close>, on the ASCII letters.\<close>

definition lower_char :: "char \<Rightarrow> char" where
  "lower_char c =
     (case map_of (zip ''ABCDEFGHIJKLMNOPQRSTUVWXYZ'' ''abcdefghijklmnopqrstuvwxyz'') c of
        Some d \<Rightarrow> d | None \<Rightarrow> c)"

definition upper_char :: "char \<Rightarrow> char" where
  "upper_char c =
     (case map_of (zip ''abcdefghijklmnopqrstuvwxyz'' ''ABCDEFGHIJKLMNOPQRSTUVWXYZ'') c of
        Some d \<Rightarrow> d | None \<Rightarrow> c)"

definition lower :: "string \<Rightarrow> string" where
  "lower s = map lower_char s"

definition upper :: "string \<Rightarrow> string" where
  "upper s = map upper_char s"

text \<open>\<^verbatim>\<open>[m.value for m in list(E)]\<close> and \<^verbatim>\<open>[m.name.lower() for m in list(E)]\<close>.\<close>

definition enum_values :: "py_enum \<Rightarrow> int list" where
  "enum_values E = map snd E"

definition enum_lower_names :: "py_enum \<Rightarrow> string list" where
  "enum_lower_names E = map (\<lambda>m. lower (fst m)) E"

text \<open>
  \<^verbatim>\<open>field in xs\<close> compares with \<^verbatim>\<open>==\<close>: an integer is found in a list of integers,
  a string in a list of strings, and nothing else is.
\<close>

fun in_ints :: "pyval \<Rightarrow> int list \<Rightarrow> bool" where
  "in_ints (PInt v) xs = (v \<in> set xs)"
| "in_ints _ xs = False"

fun in_strs :: "pyval \<Rightarrow> string list \<Rightarrow> bool" where
  "in_strs (PStr s) xs = (s \<in> set xs)"
| "in_strs _ xs = False"

text \<open>\<^verbatim>\<open>E(value).name\<close>: the name of the member with that value.\<close>

fun enum_call_name :: "py_enum \<Rightarrow> pyval \<Rightarrow> error + string" where
  "enum_call_name E (PInt v) =
     (case find (\<lambda>m. snd m = v) E of
        Some m \<Rightarrow> Inr (fst m)
      | None \<Rightarrow> Inl (ValueError_not_a_member (PInt v) E))"
| "enum_call_name E x = Inl (ValueError_not_a_member x E)"

text \<open>\<^verbatim>\<open>E[name].value\<close>: the value of the member with that name.\<close>

definition enum_getitem_value :: "py_enum \<Rightarrow> string \<Rightarrow> error + int" where
  "enum_getitem_value E n =
     (case find (\<lambda>m. fst m = n) E of
        Some m \<Rightarrow> Inr (snd m)
      | None \<Rightarrow> Inl (KeyError (PStr n)))"

text \<open>
  Modelled from the spec: \<^verbatim>\<open>freshmaker/types.py\<close>, which declares
  \<^verbatim>\<open>ArtifactBuildState\<close>, is not among the sources. The members are the closed set
  BUILD, DONE, FAILED, CANCELED of the specification, in that order, numbered from 0.
\<close>

definition ArtifactBuildState :: py_enum where
  "ArtifactBuildState = [(''BUILD'', 0), (''DONE'', 1), (''FAILED'', 2), (''CANCELED'', 3)]"

definition BUILD :: int where "BUILD = 0"
definition DONE :: int where "DONE = 1"
definition FAILED :: int where "FAILED = 2"
definition CANCELED :: int where "CANCELED = 3"

text \<open>
  \<^verbatim>\<open>ArtifactType\<close> is declared in the same missing module and the specification does not
  list its members, so every operation that reads it takes the enumeration as its first
  argument \<open>AT\<close>.
\<close>

text \<open>\<^verbatim>\<open>x or y\<close> on Python values: \<^verbatim>\<open>None\<close>, \<^verbatim>\<open>0\<close> and \<^verbatim>\<open>''\<close> are falsy.\<close>

fun truthy :: "pyval \<Rightarrow> bool" where
  "truthy PNone = False"
| "truthy (PInt v) = (v \<noteq> 0)"
| "truthy (PStr s) = (s \<noteq> [])"
| "truthy (PClass c) = True"

definition py_or :: "pyval \<Rightarrow> pyval \<Rightarrow> pyval" where
  "py_or x y = (if truthy x then x else y)"

section \<open>The event-type registry\<close>

definition EVENT_TYPES_items :: "(event_class \<times> int) list" where
  "EVENT_TYPES_items =
     [(MBSModuleStateChangeEvent, 0),
      (GitModuleMetadataChangeEvent, 1),
      (GitRPMSpecChangeEvent, 2),
      (TestingEvent, 3),
      (GitDockerfileChangeEvent, 4),
      (BodhiUpdateCompleteStableEvent, 5),
      (KojiTaskStateChangeEvent, 6),
      (BrewSignRPMEvent, 7),
      (ErrataAdvisoryRPMsSignedEvent, 8)]"

definition EVENT_TYPES :: "event_class \<rightharpoonup> int" where
  "EVENT_TYPES = map_of EVENT_TYPES_items"

text \<open>
  \<^verbatim>\<open>{v: k for k, v in EVENT_TYPES.items()}\<close>: a later item overwrites an earlier one
  with the same value.
\<close>

definition INVERSE_EVENT_TYPES :: "int \<rightharpoonup> event_class" where
  "INVERSE_EVENT_TYPES = map_of (rev (map (\<lambda>(k, v). (v, k)) EVENT_TYPES_items))"

section \<open>Tables\<close>

record Event =
  ev_id :: nat
  message_id :: string
  search_key :: string
  event_type_id :: pyval
  released :: bool
  compose_id :: "int option"

record ArtifactBuild =
  ab_id :: nat
  name :: string
  original_nvr :: "string option"
  rebuilt_nvr :: "string option"
  type :: int
  state :: int
  state_reason :: "string option"
  time_submitted :: nat
  time_completed :: "nat option"
  dep_on_id :: "nat option"
  event_id :: "nat option"
  build_id :: "int option"
  build_args :: "string option"

datatype log_level = ERROR | INFO

text \<open>
  A log record keeps the level and the three arguments of the message
  \<^verbatim>\<open>"Artifact build %r moved to state %s, %r"\<close>.
\<close>

record log_record =
  level :: log_level
  build_repr :: string
  state_name :: string
  reason :: string

text \<open>
  The state of the program: the two tables (rows in insertion order), the records logged
  so far, and the clock. \<^verbatim>\<open>datetime.utcnow()\<close> is an oracle: its \<open>n\<close>-th call
  returns \<open>clock n\<close>, and \<open>ticks\<close> counts the calls made.
\<close>

record world =
  events :: "Event list"
  artifact_builds :: "ArtifactBuild list"
  log_records :: "log_record list"
  clock :: "nat \<Rightarrow> nat"
  ticks :: nat

definition utcnow :: "world \<Rightarrow> nat \<times> world" where
  "utcnow w = (clock w (ticks w), w\<lparr>ticks := Suc (ticks w)\<rparr>)"

text \<open>An autoincremented primary key: one more than the largest key in the table.\<close>

definition next_id :: "nat list \<Rightarrow> nat" where
  "next_id ids = Suc (fold max ids 0)"

section \<open>Events\<close>

text \<open>\<^verbatim>\<open>Event.create\<close>\<close>

definition Event_create :: "world \<Rightarrow> string \<Rightarrow> string \<Rightarrow> pyval \<Rightarrow> bool \<Rightarrow> world \<times> Event" where
  "Event_create w message_id' search_key' event_type released' =
     (let event_type' =
            (case event_type of
               PClass c \<Rightarrow> (case EVENT_TYPES c of Some v \<Rightarrow> PInt v | None \<Rightarrow> event_type)
             | _ \<Rightarrow> event_type);
          event = \<lparr>ev_id = next_id (map ev_id (events w)),
                   message_id = message_id',
                   search_key = search_key',
                   event_type_id = event_type',
                   released = released',
                   compose_id = None\<rparr>
      in (w\<lparr>events := events w @ [event]\<rparr>, event))"

text \<open>\<^verbatim>\<open>Event.get\<close>: the first row with that message id, or \<^verbatim>\<open>None\<close>.\<close>

definition Event_get :: "world \<Rightarrow> string \<Rightarrow> Event option" where
  "Event_get w message_id' = find (\<lambda>e. message_id e = message_id') (events w)"

text \<open>\<^verbatim>\<open>Event.get_or_create\<close>\<close>

definition Event_get_or_create ::
  "world \<Rightarrow> string \<Rightarrow> string \<Rightarrow> pyval \<Rightarrow> bool \<Rightarrow> world \<times> Event" where
  "Event_get_or_create w message_id' search_key' event_type released' =
     (case Event_get w message_id' of
        Some instance \<Rightarrow> (w, instance)
      | None \<Rightarrow> Event_create w message_id' search_key' event_type released')"

text \<open>The property \<^verbatim>\<open>Event.event_type\<close>: \<^verbatim>\<open>INVERSE_EVENT_TYPES[self.event_type_id]\<close>.\<close>

definition Event_event_type :: "Event \<Rightarrow> error + event_class" where
  "Event_event_type e =
     (case event_type_id e of
        PInt v \<Rightarrow> (case INVERSE_EVENT_TYPES v of
                     Some c \<Rightarrow> Inr c
                   | None \<Rightarrow> Inl (KeyError (PInt v)))
      | x \<Rightarrow> Inl (KeyError x))"

text \<open>
  \<^verbatim>\<open>Event.has_all_builds_in_state\<close>. The second filter is the Python expression
  \<^verbatim>\<open>state != state\<close>, which compares the argument with itself before the query is built.
\<close>

definition has_all_builds_in_state :: "world \<Rightarrow> Event \<Rightarrow> pyval \<Rightarrow> bool" where
  "has_all_builds_in_state w self state' =
     (length (filter (\<lambda>b. state' \<noteq> state')
                (filter (\<lambda>b. event_id b = Some (ev_id self)) (artifact_builds w))) = 0)"

section \<open>Artifact builds\<close>

text \<open>\<^verbatim>\<open>ArtifactBuild.validate_state\<close>, run on every assignment to \<^verbatim>\<open>state\<close>.\<close>

definition validate_state :: "string \<Rightarrow> pyval \<Rightarrow> error + int" where
  "validate_state key field =
     (if in_ints field (enum_values ArtifactBuildState) then
        (case field of PInt v \<Rightarrow> Inr v | _ \<Rightarrow> Inl (ValueError key field ArtifactBuildState))
      else if in_strs field (enum_lower_names ArtifactBuildState) then
        (case field of
           PStr s \<Rightarrow> enum_getitem_value ArtifactBuildState (upper s)
         | _ \<Rightarrow> Inl (ValueError key field ArtifactBuildState))
      else Inl (ValueError key field ArtifactBuildState))"

text \<open>\<^verbatim>\<open>ArtifactBuild.validate_type\<close>, run on every assignment to \<^verbatim>\<open>type\<close>.\<close>

definition validate_type :: "py_enum \<Rightarrow> string \<Rightarrow> pyval \<Rightarrow> error + int" where
  "validate_type AT key field =
     (if in_ints field (enum_values AT) then
        (case field of PInt v \<Rightarrow> Inr v | _ \<Rightarrow> Inl (ValueError key field AT))
      else if in_strs field (enum_lower_names AT) then
        (case field of
           PStr s \<Rightarrow> enum_getitem_value AT (upper s)
         | _ \<Rightarrow> Inl (ValueError key field AT))
      else Inl (ValueError key field AT))"

text \<open>The row with a given primary key, and an update of the rows with that key.\<close>

definition get_build :: "world \<Rightarrow> nat \<Rightarrow> ArtifactBuild option" where
  "get_build w i = find (\<lambda>b. ab_id b = i) (artifact_builds w)"

definition update_build :: "nat \<Rightarrow> (ArtifactBuild \<Rightarrow> ArtifactBuild) \<Rightarrow> world \<Rightarrow> world" where
  "update_build i f w =
     w\<lparr>artifact_builds := map (\<lambda>b. if ab_id b = i then f b else b) (artifact_builds w)\<rparr>"

text \<open>
  The assignments \<^verbatim>\<open>build.state = field\<close> and \<^verbatim>\<open>build.type = field\<close>: the validator
  runs first, and its exception leaves the attribute as it was.
\<close>

definition set_state :: "world \<Rightarrow> nat \<Rightarrow> pyval \<Rightarrow> error + world" where
  "set_state w i field =
     (case validate_state ''state'' field of
        Inl e \<Rightarrow> Inl e
      | Inr v \<Rightarrow> Inr (update_build i (\<lambda>b. b\<lparr>state := v\<rparr>) w))"

definition set_type :: "py_enum \<Rightarrow> world \<Rightarrow> nat \<Rightarrow> pyval \<Rightarrow> error + world" where
  "set_type AT w i field =
     (case validate_type AT ''type'' field of
        Inl e \<Rightarrow> Inl e
      | Inr v \<Rightarrow> Inr (update_build i (\<lambda>b. b\<lparr>type := v\<rparr>) w))"

text \<open>
  \<^verbatim>\<open>ArtifactBuild.create\<close>. The constructor assigns its keyword arguments in the order
  written, so \<^verbatim>\<open>type\<close> is validated before \<^verbatim>\<open>state\<close>; \<^verbatim>\<open>event\<close> and \<^verbatim>\<open>dep_on\<close> are
  a row or \<^verbatim>\<open>None\<close>.
\<close>

definition ArtifactBuild_create ::
  "py_enum \<Rightarrow> world \<Rightarrow> Event option \<Rightarrow> string \<Rightarrow> pyval \<Rightarrow> int option \<Rightarrow> ArtifactBuild option
     \<Rightarrow> pyval \<Rightarrow> string option \<Rightarrow> string option \<Rightarrow> error + world \<times> ArtifactBuild" where
  "ArtifactBuild_create AT w event name' type' build_id' dep_on state' original_nvr' rebuilt_nvr' =
     (case utcnow w of (now, w1) \<Rightarrow>
        (case validate_type AT ''type'' type' of
           Inl e \<Rightarrow> Inl e
         | Inr t \<Rightarrow>
             (case validate_state ''state'' (py_or state' (PInt BUILD)) of
                Inl e \<Rightarrow> Inl e
              | Inr s \<Rightarrow>
                  (let build = \<lparr>ab_id = next_id (map ab_id (artifact_builds w1)),
                                name = name',
                                original_nvr = original_nvr',
                                rebuilt_nvr = rebuilt_nvr',
                                type = t,
                                state = s,
                                state_reason = None,
                                time_submitted = now,
                                time_completed = None,
                                dep_on_id = map_option ab_id dep_on,
                                event_id = map_option ev_id event,
                                build_id = build_id',
                                build_args = None\<rparr>
                   in Inr (w1\<lparr>artifact_builds := artifact_builds w1 @ [build]\<rparr>, build)))))"

text \<open>\<^verbatim>\<open>ArtifactBuild.depending_artifact_builds\<close>, as the keys of the rows found.\<close>

definition depending_artifact_builds :: "world \<Rightarrow> nat \<Rightarrow> nat list" where
  "depending_artifact_builds w i =
     map ab_id (filter (\<lambda>b. dep_on_id b = Some i) (artifact_builds w))"

text \<open>
  \<^verbatim>\<open>ArtifactBuild.__repr__\<close>. The tuple is evaluated left to right: the type name, the
  state name, then the message id of the event, which is \<^verbatim>\<open>None\<close> when no row of
  \<^verbatim>\<open>events\<close> has the key \<^verbatim>\<open>event_id\<close>.
\<close>

definition ArtifactBuild_repr :: "py_enum \<Rightarrow> world \<Rightarrow> ArtifactBuild \<Rightarrow> error + string" where
  "ArtifactBuild_repr AT w self =
     (case enum_call_name AT (PInt (type self)) of
        Inl e \<Rightarrow> Inl e
      | Inr tn \<Rightarrow>
          (case enum_call_name ArtifactBuildState (PInt (state self)) of
             Inl e \<Rightarrow> Inl e
           | Inr sn \<Rightarrow>
               (case (case event_id self of
                        None \<Rightarrow> None
                      | Some k \<Rightarrow> find (\<lambda>e. ev_id e = k) (events w)) of
                  None \<Rightarrow> Inl AttributeError
                | Some ev \<Rightarrow>
                    Inr (''<ArtifactBuild '' @ name self @ '', type '' @ tn @ '', state '' @ sn
                         @ '', event '' @ message_id ev @ ''>''))))"

text \<open>
  A \<^verbatim>\<open>for\<close> loop over rows whose body may raise: the first exception ends the loop.
  The body may also fail to return (\<open>None\<close>), and then so does the loop.
\<close>

fun for_each ::
  "(world \<Rightarrow> nat \<Rightarrow> (error + world) option) \<Rightarrow> world \<Rightarrow> nat list \<Rightarrow> (error + world) option" where
  "for_each body w [] = Some (Inr w)"
| "for_each body w (x # xs) =
     (case body w x of
        None \<Rightarrow> None
      | Some (Inl e) \<Rightarrow> Some (Inl e)
      | Some (Inr w') \<Rightarrow> for_each body w' xs)"

text \<open>
  \<^verbatim>\<open>ArtifactBuild.transition\<close>, called on the row with key \<open>i\<close>; a call on a key that
  the table does not hold is a call on \<^verbatim>\<open>None\<close>. The first argument after the
  enumeration bounds the depth of the recursion: \<open>None\<close> means that the bound was reached
  before the call returned. The assignment to \<^verbatim>\<open>state\<close> runs \<open>validate_state\<close>.
  The loop passes \<^verbatim>\<open>self.state\<close> to every dependent; it is the value \<open>s\<close> just
  assigned, since the calls made by the loop write no other state.
\<close>

fun transition ::
  "py_enum \<Rightarrow> nat \<Rightarrow> world \<Rightarrow> nat \<Rightarrow> pyval \<Rightarrow> string \<Rightarrow> (error + world) option" where
  "transition AT 0 w i state' state_reason' = None"
| "transition AT (Suc n) w i state' state_reason' =
     (case get_build w i of
        None \<Rightarrow> Some (Inl AttributeError)
      | Some self \<Rightarrow>
          (case enum_call_name ArtifactBuildState state' of
             Inl e \<Rightarrow> Some (Inl e)
           | Inr sn \<Rightarrow>
               (case ArtifactBuild_repr AT w self of
                  Inl e \<Rightarrow> Some (Inl e)
                | Inr r \<Rightarrow>
                    (let w1 = w\<lparr>log_records := log_records w @
                                  [\<lparr>level = (if state' = PInt FAILED then ERROR else INFO),
                                    build_repr = r, state_name = sn, reason = state_reason'\<rparr>]\<rparr>
                     in if PInt (state self) = state' then Some (Inr w1)
                        else
                          (case validate_state ''state'' state' of
                             Inl e \<Rightarrow> Some (Inl e)
                           | Inr s \<Rightarrow>
                               (let w2 = update_build i
                                           (\<lambda>b. b\<lparr>state := s, state_reason := Some state_reason'\<rparr>) w1;
                                    w3 = (if s \<in> set [DONE, FAILED, CANCELED] then
                                            (case utcnow w2 of (now, w') \<Rightarrow>
                                               update_build i (\<lambda>b. b\<lparr>time_completed := Some now\<rparr>) w')
                                          else w2)
                                in if s \<in> set [FAILED, CANCELED] then
                                     for_each
                                       (\<lambda>v build. transition AT n v build (PInt s)
                                          ''Cannot build artifact, because its dependency cannot be built.'')
                                       w3 (depending_artifact_builds w3 i)
                                   else Some (Inr w3)))))))"

section \<open>Notions used to state the properties\<close>

text \<open>The state of the row with key \<open>j\<close>, if the table holds one.\<close>

definition row_state :: "world \<Rightarrow> nat \<Rightarrow> int option" where
  "row_state w j = map_option state (get_build w j)"

text \<open>
  Every row of the table can be printed: its type and its state are members of their
  enumerations and its event is a row of \<^verbatim>\<open>events\<close>. The validators and
  \<^verbatim>\<open>ArtifactBuild.create\<close> called with an event establish this.
\<close>

definition repr_ok :: "py_enum \<Rightarrow> world \<Rightarrow> bool" where
  "repr_ok AT w = list_all (\<lambda>b. \<not> isl (ArtifactBuild_repr AT w b)) (artifact_builds w)"

text \<open>
  The rows that a cascade started at \<open>i\<close> with target state \<open>s\<close> enters: \<open>i\<close>
  itself when it is not in state \<open>s\<close>, and every row not in state \<open>s\<close> whose
  \<^verbatim>\<open>dep_on\<close> is such a row.
\<close>

inductive cascade_reach :: "world \<Rightarrow> int \<Rightarrow> nat \<Rightarrow> nat \<Rightarrow> bool" for w s i where
  self: "get_build w i = Some b \<Longrightarrow> state b \<noteq> s \<Longrightarrow> cascade_reach w s i i"
| child: "cascade_reach w s i k \<Longrightarrow> get_build w j = Some b \<Longrightarrow> dep_on_id b = Some k
          \<Longrightarrow> state b \<noteq> s \<Longrightarrow> cascade_reach w s i j"

text \<open>
  The keys met by following \<^verbatim>\<open>dep_on\<close> upwards from \<open>j\<close>, for at most \<open>n\<close>
  steps; with as many steps as the table has rows these are all the ancestors of \<open>j\<close>.
  A row is a descendant of each of its ancestors, and the links form a forest when the
  keys are distinct and no row is its own ancestor.
\<close>

fun dep_on_chain :: "nat \<Rightarrow> world \<Rightarrow> nat \<Rightarrow> nat list" where
  "dep_on_chain 0 w j = []"
| "dep_on_chain (Suc n) w j =
     (case get_build w j of
        None \<Rightarrow> []
      | Some b \<Rightarrow> (case dep_on_id b of None \<Rightarrow> [] | Some p \<Rightarrow> p # dep_on_chain n w p))"

definition ancestors :: "world \<Rightarrow> nat \<Rightarrow> nat list" where
  "ancestors w j = dep_on_chain (length (artifact_builds w)) w j"

definition is_descendant :: "world \<Rightarrow> nat \<Rightarrow> nat \<Rightarrow> bool" where
  "is_descendant w j i = (i \<in> set (ancestors w j))"

definition acyclic_forest :: "world \<Rightarrow> bool" where
  "acyclic_forest w =
     (distinct (map ab_id (artifact_builds w)) \<and>
      list_all (\<lambda>b. ab_id b \<notin> set (ancestors w (ab_id b))) (artifact_builds w))"

text \<open>Projections of a result, for the concrete scenarios.\<close>

definition states_after :: "(error + world) option \<Rightarrow> int list option" where
  "states_after res =
     (case res of Some (Inr w) \<Rightarrow> Some (map state (artifact_builds w)) | _ \<Rightarrow> None)"

definition world_after :: "(error + world) option \<Rightarrow> world option" where
  "world_after res = (case res of Some (Inr w) \<Rightarrow> Some w | _ \<Rightarrow> None)"

definition created_build :: "error + world \<times> ArtifactBuild \<Rightarrow> ArtifactBuild option" where
  "created_build res = (case res of Inr (w, b) \<Rightarrow> Some b | Inl e \<Rightarrow> None)"

subsection \<open>Relations between the tables before and after a cascade\<close>

text \<open>
  A row is either untouched, or it was not in state \<open>s\<close> and has been moved there, with
  a reason and possibly a completion time.
\<close>

definition marked :: "int \<Rightarrow> ArtifactBuild \<Rightarrow> ArtifactBuild \<Rightarrow> bool" where
  "marked s b b' =
     (b' = b \<or>
      (state b \<noteq> s \<and>
       (\<exists>r t. b' = b\<lparr>state := s, state_reason := Some r, time_completed := t\<rparr>)))"

definition count_not :: "int \<Rightarrow> world \<Rightarrow> nat" where
  "count_not s w = length (filter (\<lambda>b. state b \<noteq> s) (artifact_builds w))"

definition cascaded :: "int \<Rightarrow> world \<Rightarrow> world \<Rightarrow> bool" where
  "cascaded s w w' =
     (list_all2 (marked s) (artifact_builds w) (artifact_builds w') \<and> events w' = events w
      \<and> clock w' = clock w)"

text \<open>Every row that depends on a row newly put in state \<open>s\<close> is in state \<open>s\<close> too.\<close>

definition closed :: "int \<Rightarrow> world \<Rightarrow> world \<Rightarrow> bool" where
  "closed s w w' =
     (\<forall>k j bj. row_state w k \<noteq> Some s \<and> row_state w' k = Some s \<and> get_build w j = Some bj
        \<and> dep_on_id bj = Some k \<longrightarrow> row_state w' j = Some s)"

definition cascade_post :: "int \<Rightarrow> nat \<Rightarrow> world \<Rightarrow> world \<Rightarrow> bool" where
  "cascade_post s i w w' =
     (cascaded s w w' \<and> closed s w w' \<and> row_state w' i = Some s \<and>
      (\<forall>j b b'. get_build w j = Some b \<longrightarrow> get_build w' j = Some b' \<longrightarrow> b' \<noteq> b
         \<longrightarrow> cascade_reach w s i j))"

subsection \<open>Concrete scenarios\<close>

text \<open>
  An enumeration standing for \<^verbatim>\<open>ArtifactType\<close>, an empty database whose clock starts
  at 1000, one event \<open>E\<close> with message id \<^verbatim>\<open>m1\<close>, and the chain of builds
  \<open>A \<leftarrow> B \<leftarrow> C\<close> under it, as \<^verbatim>\<open>Event.get_or_create\<close> and
  \<^verbatim>\<open>ArtifactBuild.create\<close> produce them.
\<close>

definition ArtifactType_sample :: py_enum where
  "ArtifactType_sample = [(''RPM'', 0), (''IMAGE'', 1), (''MODULE'', 2), (''TEST'', 3)]"

definition world0 :: world where
  "world0 = \<lparr>events = [], artifact_builds = [], log_records = [],
              clock = (\<lambda>n. 1000 + n), ticks = 0\<rparr>"

definition event_E :: Event where
  "event_E = \<lparr>ev_id = 1, message_id = ''m1'', search_key = ''key'', event_type_id = PInt 3,
               released = True, compose_id = None\<rparr>"

definition build_A :: ArtifactBuild where
  "build_A = \<lparr>ab_id = 1, name = ''A'', original_nvr = None, rebuilt_nvr = None, type = 1,
               state = 0, state_reason = None, time_submitted = 1000, time_completed = None,
               dep_on_id = None, event_id = Some 1, build_id = None, build_args = None\<rparr>"

definition build_B :: ArtifactBuild where
  "build_B = \<lparr>ab_id = 2, name = ''B'', original_nvr = None, rebuilt_nvr = None, type = 1,
               state = 0, state_reason = None, time_submitted = 1001, time_completed = None,
               dep_on_id = Some 1, event_id = Some 1, build_id = None, build_args = None\<rparr>"

definition build_C :: ArtifactBuild where
  "build_C = \<lparr>ab_id = 3, name = ''C'', original_nvr = None, rebuilt_nvr = None, type = 1,
               state = 0, state_reason = None, time_submitted = 1002, time_completed = None,
               dep_on_id = Some 2, event_id = Some 1, build_id = None, build_args = None\<rparr>"

definition world_with :: "ArtifactBuild list \<Rightarrow> nat \<Rightarrow> world" where
  "world_with bs t = \<lparr>events = [event_E], artifact_builds = bs, log_records = [],
                       clock = (\<lambda>n. 1000 + n), ticks = t\<rparr>"

definition chain_world :: world where
  "chain_world = world_with [build_A, build_B, build_C] 3"

text \<open>
  The chain in which \<open>B\<close> failed before \<open>C\<close> was created: \<open>A\<close> and \<open>C\<close> are in
  state BUILD, \<open>B\<close> is in state FAILED.
\<close>

definition build_B_failed :: ArtifactBuild where
  "build_B_failed = build_B\<lparr>state := 2, state_reason := Some ''build error'',
                              time_completed := Some 1002\<rparr>"

definition build_C_late :: ArtifactBuild where
  "build_C_late = build_C\<lparr>time_submitted := 1003\<rparr>"

definition broken_chain_world :: world where
  "broken_chain_world =
     (world_with [build_A, build_B_failed, build_C_late] 4)
       \<lparr>log_records := [\<lparr>level = ERROR,
                          build_repr = ''<ArtifactBuild B, type IMAGE, state BUILD, event m1>'',
                          state_name = ''FAILED'', reason = ''build error''\<rparr>]\<rparr>"

text \<open>The chain after \<open>C\<close> has been moved to DONE.\<close>

definition build_C_done :: ArtifactBuild where
  "build_C_done = build_C\<lparr>state := 1, state_reason := Some ''built'',
                            time_completed := Some 1003\<rparr>"

definition done_chain_world :: world where
  "done_chain_world =
     (world_with [build_A, build_B, build_C_done] 4)
       \<lparr>log_records := [\<lparr>level = INFO,
                          build_repr = ''<ArtifactBuild C, type IMAGE, state BUILD, event m1>'',
                          state_name = ''DONE'', reason = ''built''\<rparr>]\<rparr>"

section \<open>Auxiliary facts\<close>

lemma marked_refl: "marked s b b" by (simp add: marked_def)

lemma marked_trans: "marked s a b \<Longrightarrow> marked s b c \<Longrightarrow> marked s a c"
  by (auto simp: marked_def)

lemma marked_fields:
  "marked s b b' \<Longrightarrow> ab_id b' = ab_id b \<and> dep_on_id b' = dep_on_id b \<and> type b' = type b
     \<and> event_id b' = event_id b \<and> name b' = name b"
  by (auto simp: marked_def)

lemma marked_state: "marked s b b' \<Longrightarrow> state b' = state b \<or> state b' = s"
  by (auto simp: marked_def)

lemma marked_keeps: "marked s b b' \<Longrightarrow> state b = s \<Longrightarrow> b' = b"
  by (auto simp: marked_def)

lemma cascaded_refl: "cascaded s w w"
  by (simp add: cascaded_def list_all2_refl marked_refl)

lemma cascaded_trans: "cascaded s w v \<Longrightarrow> cascaded s v u \<Longrightarrow> cascaded s w u"
  unfolding cascaded_def
  by (auto elim: list_all2_trans[rotated] intro: marked_trans)

lemma list_all2_find:
  assumes "list_all2 R xs ys" and "\<And>x y. R x y \<Longrightarrow> P x = Q y"
  shows "rel_option R (find P xs) (find Q ys)"
  using assms by (induction xs ys rule: list_all2_induct) auto

lemma cascaded_get:
  assumes "cascaded s w w'"
  shows "rel_option (marked s) (get_build w j) (get_build w' j)"
  unfolding get_build_def
  using assms marked_fields
  by (intro list_all2_find[where R="marked s"]) (auto simp: cascaded_def)

lemma cascaded_get_Some:
  assumes "cascaded s w w'" "get_build w j = Some b"
  obtains b' where "get_build w' j = Some b'" "marked s b b'"
  using cascaded_get[OF assms(1), of j] assms(2) by (auto simp: option_rel_Some1)

lemma cascaded_get_Some_rev:
  assumes "cascaded s w w'" "get_build w' j = Some b'"
  obtains b where "get_build w j = Some b" "marked s b b'"
  using cascaded_get[OF assms(1), of j] assms(2) by (auto simp: option_rel_Some2)

lemma cascaded_ids: "cascaded s w w' \<Longrightarrow> map ab_id (artifact_builds w') = map ab_id (artifact_builds w)"
  unfolding cascaded_def
proof (elim conjE)
  assume "list_all2 (marked s) (artifact_builds w) (artifact_builds w')"
  then show ?thesis
    by (induction rule: list_all2_induct) (auto dest: marked_fields)
qed

lemma cascaded_count: "cascaded s w w' \<Longrightarrow> count_not s w' \<le> count_not s w"
  unfolding cascaded_def count_not_def
proof (elim conjE)
  assume "list_all2 (marked s) (artifact_builds w) (artifact_builds w')"
  then show "length (filter (\<lambda>b. state b \<noteq> s) (artifact_builds w')) \<le>
             length (filter (\<lambda>b. state b \<noteq> s) (artifact_builds w))"
    by (induction rule: list_all2_induct) (auto dest: marked_keeps)
qed

lemma reach_antimono:
  assumes "cascaded s w w'" "cascade_reach w' s c j"
  shows "cascade_reach w s c j"
  using assms(2)
proof (induction rule: cascade_reach.induct)
  case (self b')
  then obtain b where "get_build w c = Some b" "marked s b b'"
    using cascaded_get_Some_rev[OF assms(1)] by blast
  with self show ?case
    by (auto intro!: cascade_reach.self dest: marked_keeps)
next
  case (child k j b')
  then obtain b where "get_build w j = Some b" "marked s b b'"
    using cascaded_get_Some_rev[OF assms(1)] by blast
  with child show ?case
    by (auto intro!: cascade_reach.child[of w s c k j b] dest: marked_keeps marked_fields)
qed

lemma reach_not_s:
  "cascade_reach w s i j \<Longrightarrow> \<exists>b. get_build w j = Some b \<and> state b \<noteq> s"
  by (induction rule: cascade_reach.induct) auto

lemma valid_state_name:
  "s \<in> {BUILD, DONE, FAILED, CANCELED} \<Longrightarrow> \<exists>sn. enum_call_name ArtifactBuildState (PInt s) = Inr sn"
  by (auto simp: ArtifactBuildState_def BUILD_def DONE_def FAILED_def CANCELED_def)

lemma valid_state_validate:
  "s \<in> {BUILD, DONE, FAILED, CANCELED} \<Longrightarrow> validate_state key (PInt s) = Inr s"
  by (auto simp: validate_state_def enum_values_def ArtifactBuildState_def BUILD_def DONE_def FAILED_def CANCELED_def)

lemma repr_ok_iff:
  "\<not> isl (ArtifactBuild_repr AT w b) \<longleftrightarrow>
     find (\<lambda>m. snd m = type b) AT \<noteq> None \<and>
     find (\<lambda>m. snd m = state b) ArtifactBuildState \<noteq> None \<and>
     (\<exists>k e. event_id b = Some k \<and> find (\<lambda>e. ev_id e = k) (events w) = Some e)"
  by (auto simp: ArtifactBuild_repr_def split: sum.splits option.splits)

lemma marked_repr:
  assumes "marked s b b'" "events w' = events w" "s \<in> {BUILD, DONE, FAILED, CANCELED}"
    "\<not> isl (ArtifactBuild_repr AT w b)"
  shows "\<not> isl (ArtifactBuild_repr AT w' b')"
proof -
  have "find (\<lambda>m. snd m = s) ArtifactBuildState \<noteq> None"
    using assms(3) by (auto simp: ArtifactBuildState_def BUILD_def DONE_def FAILED_def CANCELED_def)
  moreover have "state b' = state b \<or> state b' = s" using assms(1) by (rule marked_state)
  ultimately have "find (\<lambda>m. snd m = state b') ArtifactBuildState \<noteq> None"
    using assms(4) unfolding repr_ok_iff by metis
  then show ?thesis
    using assms(2,4) marked_fields[OF assms(1)] unfolding repr_ok_iff by simp
qed

lemma cascaded_repr_ok:
  assumes "cascaded s w w'" "s \<in> {BUILD, DONE, FAILED, CANCELED}" "repr_ok AT w"
  shows "repr_ok AT w'"
proof -
  have ev: "events w' = events w" using assms(1) by (simp add: cascaded_def)
  have "list_all2 (marked s) (artifact_builds w) (artifact_builds w')"
    using assms(1) by (simp add: cascaded_def)
  then have "list_all (\<lambda>b. \<not> isl (ArtifactBuild_repr AT w b)) (artifact_builds w) \<Longrightarrow>
             list_all (\<lambda>b. \<not> isl (ArtifactBuild_repr AT w' b)) (artifact_builds w')"
    by (induction rule: list_all2_induct) (use marked_repr[OF _ ev assms(2)] in auto)
  then show ?thesis using assms(3) by (simp add: repr_ok_def)
qed

lemma repr_ok_get:
  "repr_ok AT w \<Longrightarrow> get_build w i = Some b \<Longrightarrow> \<exists>rp. ArtifactBuild_repr AT w b = Inr rp"
  unfolding repr_ok_def get_build_def
  by (cases "ArtifactBuild_repr AT w b") (auto simp: find_Some_iff list_all_length)

lemma find_map_list: "find P (map f xs) = map_option f (find (\<lambda>x. P (f x)) xs)"
  by (induction xs) auto

lemma get_build_id: "get_build w j = Some x \<Longrightarrow> ab_id x = j \<and> x \<in> set (artifact_builds w)"
  by (auto simp: get_build_def find_Some_iff)

lemma distinct_get_unique:
  assumes "distinct (map ab_id bs)" "find (\<lambda>b. ab_id b = i) bs = Some b" "x \<in> set bs" "ab_id x = i"
  shows "x = b"
proof -
  have "b \<in> set bs" "ab_id b = i" using assms(2) by (auto simp: find_Some_iff)
  then show ?thesis using assms(1,3,4) by (auto simp: distinct_map inj_on_def)
qed

lemma filter_map_less:
  assumes "\<forall>x\<in>set xs. P (g x) \<longrightarrow> P x" "\<exists>x\<in>set xs. P x \<and> \<not> P (g x)"
  shows "length (filter P (map g xs)) < length (filter P xs)"
  using assms
proof (induction xs)
  case Nil
  then show ?case by simp
next
  case (Cons a xs)
  have le: "length (filter P (map g xs)) \<le> length (filter P xs)"
    using Cons.prems(1) by (induction xs) auto
  show ?case
  proof (cases "P a \<and> \<not> P (g a)")
    case True
    then show ?thesis using le by simp
  next
    case False
    then have "\<exists>x\<in>set xs. P x \<and> \<not> P (g x)" using Cons.prems(2) by auto
    then have "length (filter P (map g xs)) < length (filter P xs)"
      using Cons.IH Cons.prems(1) by simp
    then show ?thesis using Cons.prems(1) by auto
  qed
qed

lemma transition_enter:
  assumes s: "s \<in> {FAILED, CANCELED}"
    and d: "distinct (map ab_id (artifact_builds w))"
    and ok: "repr_ok AT w"
    and g: "get_build w i = Some b"
    and ne: "state b \<noteq> s"
  shows "\<exists>w3. transition AT (Suc n) w i (PInt s) r =
           for_each (\<lambda>v build. transition AT n v build (PInt s)
                        ''Cannot build artifact, because its dependency cannot be built.'')
             w3 (depending_artifact_builds w i)
         \<and> cascaded s w w3
         \<and> get_build w3 i = Some (b\<lparr>state := s, state_reason := Some r,
                                      time_completed := Some (clock w (ticks w))\<rparr>)
         \<and> (\<forall>j. j \<noteq> i \<longrightarrow> get_build w3 j = get_build w j)
         \<and> count_not s w3 < count_not s w"
proof -
  let ?f = "\<lambda>x. if ab_id x = i then x\<lparr>state := s, state_reason := Some r,
                                      time_completed := Some (clock w (ticks w))\<rparr> else x"
  obtain sn where sn: "enum_call_name ArtifactBuildState (PInt s) = Inr sn"
    using valid_state_name[of s] s by auto
  obtain rp where rp: "ArtifactBuild_repr AT w b = Inr rp"
    using repr_ok_get[OF ok g] by blast
  have v: "validate_state ''state'' (PInt s) = Inr s"
    using valid_state_validate[of s] s by auto
  define lv where "lv = (if s = FAILED then ERROR else INFO)"
  define w1 where "w1 = w\<lparr>log_records := log_records w @
                             [\<lparr>level = lv, build_repr = rp, state_name = sn, reason = r\<rparr>]\<rparr>"
  define w2 where "w2 = update_build i (\<lambda>b. b\<lparr>state := s, state_reason := Some r\<rparr>) w1"
  define w3 where "w3 = update_build i (\<lambda>b. b\<lparr>time_completed := Some (clock w2 (ticks w2))\<rparr>)
                          (w2\<lparr>ticks := Suc (ticks w2)\<rparr>)"
  have tm: "s = DONE \<or> s = FAILED \<or> s = CANCELED" "s = FAILED \<or> s = CANCELED" using s by auto
  have eq0: "transition AT (Suc n) w i (PInt s) r =
           for_each (\<lambda>v build. transition AT n v build (PInt s)
                        ''Cannot build artifact, because its dependency cannot be built.'')
             w3 (depending_artifact_builds w3 i)"
    apply (subst transition.simps(2))
    apply (simp only: g option.case sn sum.case rp)
    apply (simp add: ne v tm Let_def utcnow_def lv_def[symmetric] w1_def[symmetric]
                     w2_def[symmetric] w3_def[symmetric])
    done
  have ab3: "artifact_builds w3 = map ?f (artifact_builds w)"
    by (simp add: w3_def w2_def w1_def update_build_def comp_def if_distrib cong: if_cong)
  have ev3: "events w3 = events w" "clock w3 = clock w"
    by (simp_all add: w3_def w2_def w1_def update_build_def)
  have ch: "depending_artifact_builds w3 i = depending_artifact_builds w i"
    by (simp add: ab3 depending_artifact_builds_def filter_map comp_def)
  have eq: "transition AT (Suc n) w i (PInt s) r =
           for_each (\<lambda>v build. transition AT n v build (PInt s)
                        ''Cannot build artifact, because its dependency cannot be built.'')
             w3 (depending_artifact_builds w i)"
    using eq0 ch by simp
  have fid: "\<And>j. (\<lambda>x. ab_id (?f x) = j) = (\<lambda>x. ab_id x = j)" by auto
  have get3: "\<And>j. get_build w3 j = map_option ?f (get_build w j)"
    by (simp add: get_build_def ab3 find_map_list fid)
  have uniq: "\<And>x. x \<in> set (artifact_builds w) \<Longrightarrow> ab_id x = i \<Longrightarrow> x = b"
    using distinct_get_unique[OF d] g unfolding get_build_def by blast
  have "\<forall>x\<in>set (artifact_builds w). marked s x (?f x)"
    using uniq ne by (auto simp: marked_def)
  then have c: "cascaded s w w3"
    by (simp add: cascaded_def ab3 ev3 list_all2_map2 list_all2_same)
  have bin: "b \<in> set (artifact_builds w)" "ab_id b = i"
    using g by (auto simp: get_build_def find_Some_iff)
  have gi: "get_build w3 i = Some (b\<lparr>state := s, state_reason := Some r,
                                      time_completed := Some (clock w (ticks w))\<rparr>)"
    by (simp add: get3 g bin)
  have gj: "\<forall>j. j \<noteq> i \<longrightarrow> get_build w3 j = get_build w j"
  proof (intro allI impI)
    fix j assume "j \<noteq> i"
    show "get_build w3 j = get_build w j"
    proof (cases "get_build w j")
      case None
      then show ?thesis by (simp add: get3)
    next
      case (Some x)
      with \<open>j \<noteq> i\<close> get_build_id[OF Some] show ?thesis by (simp add: get3)
    qed
  qed
  have cnt: "count_not s w3 < count_not s w"
    unfolding count_not_def ab3
    using bin ne by (intro filter_map_less) auto
  show ?thesis using eq c gi gj cnt by blast
qed

lemma transition_same:
  assumes s: "s \<in> {BUILD, DONE, FAILED, CANCELED}"
    and ok: "repr_ok AT w"
    and g: "get_build w i = Some b"
    and eqs: "state b = s"
  shows "\<exists>rp sn. ArtifactBuild_repr AT w b = Inr rp
           \<and> enum_call_name ArtifactBuildState (PInt s) = Inr sn
           \<and> transition AT (Suc n) w i (PInt s) r =
               Some (Inr (w\<lparr>log_records := log_records w @
                            [\<lparr>level = (if s = FAILED then ERROR else INFO),
                              build_repr = rp, state_name = sn, reason = r\<rparr>]\<rparr>))"
proof -
  obtain sn where sn: "enum_call_name ArtifactBuildState (PInt s) = Inr sn"
    using valid_state_name[OF s] by blast
  obtain rp where rp: "ArtifactBuild_repr AT w b = Inr rp"
    using repr_ok_get[OF ok g] by blast
  have "transition AT (Suc n) w i (PInt s) r =
               Some (Inr (w\<lparr>log_records := log_records w @
                            [\<lparr>level = (if s = FAILED then ERROR else INFO),
                              build_repr = rp, state_name = sn, reason = r\<rparr>]\<rparr>))"
    apply (subst transition.simps(2))
    apply (simp only: g option.case sn sum.case rp)
    apply (simp add: eqs Let_def)
    done
  with sn rp show ?thesis by blast
qed

lemma cascaded_log:
  "cascaded s w (w\<lparr>log_records := l\<rparr>)"
  by (simp add: cascaded_def list_all2_refl marked_refl)

lemma row_state_log [simp]: "row_state (w\<lparr>log_records := l\<rparr>) j = row_state w j"
  by (simp add: row_state_def get_build_def)

lemma get_build_log [simp]: "get_build (w\<lparr>log_records := l\<rparr>) j = get_build w j"
  by (simp add: get_build_def)

lemma cascaded_row_state:
  assumes "cascaded s w w'"
  shows "row_state w' j = row_state w j \<or> (row_state w j \<noteq> None \<and> row_state w' j = Some s)"
proof (cases "get_build w j")
  case None
  then have "get_build w' j = None" using cascaded_get[OF assms, of j] by simp
  with None show ?thesis by (simp add: row_state_def)
next
  case (Some b)
  then obtain b' where "get_build w' j = Some b'" "marked s b b'"
    using cascaded_get_Some[OF assms] by blast
  with Some marked_state[of s b b'] show ?thesis by (auto simp: row_state_def)
qed

lemma cascaded_keeps_s:
  "cascaded s w w' \<Longrightarrow> row_state w j = Some s \<Longrightarrow> row_state w' j = Some s"
  using cascaded_row_state[of s w w' j] by auto

lemma closed_trans:
  assumes c1: "cascaded s w v" and c2: "cascaded s v u"
    and cl1: "closed s w v" and cl2: "closed s v u"
  shows "closed s w u"
  unfolding closed_def
proof (intro allI impI, elim conjE)
  fix k j bj
  assume k0: "row_state w k \<noteq> Some s" and k2: "row_state u k = Some s"
    and gj: "get_build w j = Some bj" and dj: "dep_on_id bj = Some k"
  show "row_state u j = Some s"
  proof (cases "row_state v k = Some s")
    case True
    then have "row_state v j = Some s" using cl1 k0 gj dj unfolding closed_def by blast
    then show ?thesis by (rule cascaded_keeps_s[OF c2])
  next
    case False
    obtain bj' where gj': "get_build v j = Some bj'" and m: "marked s bj bj'"
      using cascaded_get_Some[OF c1 gj] by blast
    have "dep_on_id bj' = Some k" using marked_fields[OF m] dj by simp
    then show ?thesis using cl2 False k2 gj' unfolding closed_def by blast
  qed
qed

lemma closed_refl: "closed s w w"
  by (auto simp: closed_def)

lemma closed_log: "closed s w (w\<lparr>log_records := l\<rparr>)"
  by (auto simp: closed_def)

lemma child_row:
  assumes d: "distinct (map ab_id (artifact_builds w))"
    and c: "c \<in> set (depending_artifact_builds w i)"
  shows "\<exists>bc. get_build w c = Some bc \<and> dep_on_id bc = Some i"
proof -
  obtain x where x: "x \<in> set (artifact_builds w)" "ab_id x = c" "dep_on_id x = Some i"
    using c by (auto simp: depending_artifact_builds_def)
  then have "find (\<lambda>b. ab_id b = c) (artifact_builds w) \<noteq> None"
    by (auto simp: find_None_iff)
  then obtain y where y: "find (\<lambda>b. ab_id b = c) (artifact_builds w) = Some y" by blast
  have "x = y" using distinct_get_unique[OF d y x(1,2)] .
  with y x(3) show ?thesis by (simp add: get_build_def)
qed

lemma row_child:
  assumes "get_build w j = Some bj" "dep_on_id bj = Some k"
  shows "j \<in> set (depending_artifact_builds w k)"
  using get_build_id[OF assms(1)] assms(2)
  by (auto simp: depending_artifact_builds_def intro!: image_eqI[where x=bj])

lemma reach_prepend:
  assumes "cascade_reach w s c j" "get_build w c = Some bc" "dep_on_id bc = Some i"
    "cascade_reach w s i i"
  shows "cascade_reach w s i j"
  using assms(1)
proof (induction rule: cascade_reach.induct)
  case (self b)
  with assms(2,3,4) show ?case by (auto intro: cascade_reach.child)
next
  case (child k j b)
  then show ?case by (auto intro: cascade_reach.child)
qed

lemma for_each_cascade:
  assumes s: "s \<in> {FAILED, CANCELED}"
    and IH: "\<And>v c b. distinct (map ab_id (artifact_builds v)) \<Longrightarrow> repr_ok AT v
               \<Longrightarrow> get_build v c = Some b \<Longrightarrow> count_not s v < n
               \<Longrightarrow> \<exists>v'. body v c = Some (Inr v') \<and> cascade_post s c v v'"
  shows "distinct (map ab_id (artifact_builds v)) \<Longrightarrow> repr_ok AT v
           \<Longrightarrow> \<forall>c\<in>set cs. get_build v c \<noteq> None \<Longrightarrow> count_not s v < n
           \<Longrightarrow> \<exists>v'. for_each body v cs = Some (Inr v') \<and> cascaded s v v' \<and> closed s v v'
                  \<and> (\<forall>c\<in>set cs. row_state v' c = Some s)
                  \<and> (\<forall>j b b'. get_build v j = Some b \<longrightarrow> get_build v' j = Some b' \<longrightarrow> b' \<noteq> b
                        \<longrightarrow> (\<exists>c\<in>set cs. cascade_reach v s c j))"
proof (induction cs arbitrary: v)
  case Nil
  then show ?case by (auto simp: cascaded_refl closed_refl)
next
  case (Cons c cs)
  have sv: "s \<in> {BUILD, DONE, FAILED, CANCELED}" using s by auto
  obtain b where b: "get_build v c = Some b" using Cons.prems(3) by auto
  obtain v1 where v1: "body v c = Some (Inr v1)" and p1: "cascade_post s c v v1"
    using IH[OF Cons.prems(1,2) b Cons.prems(4)] by blast
  have c1: "cascaded s v v1" and cl1: "closed s v v1" and st1: "row_state v1 c = Some s"
    and ch1: "\<And>j b b'. get_build v j = Some b \<Longrightarrow> get_build v1 j = Some b' \<Longrightarrow> b' \<noteq> b
               \<Longrightarrow> cascade_reach v s c j"
    using p1 unfolding cascade_post_def by blast+
  have d1: "distinct (map ab_id (artifact_builds v1))"
    using Cons.prems(1) cascaded_ids[OF c1] by simp
  have ok1: "repr_ok AT v1" using cascaded_repr_ok[OF c1 sv Cons.prems(2)] .
  have ex1: "\<forall>c\<in>set cs. get_build v1 c \<noteq> None"
  proof
    fix x assume "x \<in> set cs"
    then obtain bx where "get_build v x = Some bx" using Cons.prems(3) by auto
    then show "get_build v1 x \<noteq> None" using cascaded_get_Some[OF c1] by (metis option.distinct(1))
  qed
  have n1: "count_not s v1 < n" using cascaded_count[OF c1] Cons.prems(4) by simp
  obtain v' where f: "for_each body v1 cs = Some (Inr v')" and c2: "cascaded s v1 v'"
    and cl2: "closed s v1 v'" and st2: "\<forall>c\<in>set cs. row_state v' c = Some s"
    and ch2: "\<And>j b b'. get_build v1 j = Some b \<Longrightarrow> get_build v' j = Some b' \<Longrightarrow> b' \<noteq> b
               \<Longrightarrow> \<exists>c\<in>set cs. cascade_reach v1 s c j"
    using Cons.IH[OF d1 ok1 ex1 n1] by blast
  have r1: "for_each body v (c # cs) = Some (Inr v')" using v1 f by simp
  have r2: "cascaded s v v'" using cascaded_trans[OF c1 c2] .
  have r3: "closed s v v'" using closed_trans[OF c1 c2 cl1 cl2] .
  have r4: "\<forall>x\<in>set (c # cs). row_state v' x = Some s"
    using st2 cascaded_keeps_s[OF c2 st1] by auto
  have r5: "\<forall>j b b'. get_build v j = Some b \<longrightarrow> get_build v' j = Some b' \<longrightarrow> b' \<noteq> b
                        \<longrightarrow> (\<exists>x\<in>set (c # cs). cascade_reach v s x j)"
  proof (intro allI impI)
    fix j bj b'
    assume gj: "get_build v j = Some bj" and gj': "get_build v' j = Some b'" and ne: "b' \<noteq> bj"
    obtain b1 where g1: "get_build v1 j = Some b1" using cascaded_get_Some[OF c1 gj] by blast
    show "\<exists>x\<in>set (c # cs). cascade_reach v s x j"
    proof (cases "b1 = bj")
      case False
      then show ?thesis using ch1[OF gj g1] by auto
    next
      case True
      then obtain x where "x \<in> set cs" "cascade_reach v1 s x j"
        using ch2[OF g1 gj'] ne by auto
      then show ?thesis using reach_antimono[OF c1] by auto
    qed
  qed
  show ?case using r1 r2 r3 r4 r5 by blast
qed

lemma transition_cascade:
  assumes s: "s \<in> {FAILED, CANCELED}"
  shows "distinct (map ab_id (artifact_builds w)) \<Longrightarrow> repr_ok AT w \<Longrightarrow> get_build w i = Some b
           \<Longrightarrow> count_not s w < n
           \<Longrightarrow> \<exists>w'. transition AT n w i (PInt s) r = Some (Inr w') \<and> cascade_post s i w w'"
proof (induction n arbitrary: w i b r)
  case 0
  then show ?case by simp
next
  case (Suc n)
  have sv: "s \<in> {BUILD, DONE, FAILED, CANCELED}" using s by auto
  note d = Suc.prems(1) and ok = Suc.prems(2) and g = Suc.prems(3)
  show ?case
  proof (cases "state b = s")
    case True
    obtain rp sn where
      t: "transition AT (Suc n) w i (PInt s) r =
               Some (Inr (w\<lparr>log_records := log_records w @
                            [\<lparr>level = (if s = FAILED then ERROR else INFO),
                              build_repr = rp, state_name = sn, reason = r\<rparr>]\<rparr>))"
      using transition_same[OF sv ok g True] by blast
    have "cascade_post s i w (w\<lparr>log_records := log_records w @
                            [\<lparr>level = (if s = FAILED then ERROR else INFO),
                              build_repr = rp, state_name = sn, reason = r\<rparr>]\<rparr>)"
      using g True by (simp add: cascade_post_def cascaded_log closed_log) (simp add: row_state_def)
    with t show ?thesis by blast
  next
    case False
    let ?body = "\<lambda>v build. transition AT n v build (PInt s)
                        ''Cannot build artifact, because its dependency cannot be built.''"
    obtain w3 where
      t: "transition AT (Suc n) w i (PInt s) r = for_each ?body w3 (depending_artifact_builds w i)"
      and c3: "cascaded s w w3"
      and g3: "get_build w3 i = Some (b\<lparr>state := s, state_reason := Some r,
                                      time_completed := Some (clock w (ticks w))\<rparr>)"
      and o3: "\<forall>j. j \<noteq> i \<longrightarrow> get_build w3 j = get_build w j"
      and n3: "count_not s w3 < count_not s w"
      using transition_enter[OF s d ok g False, of n r] by blast
    have d3: "distinct (map ab_id (artifact_builds w3))" using d cascaded_ids[OF c3] by simp
    have ok3: "repr_ok AT w3" using cascaded_repr_ok[OF c3 sv ok] .
    have ex3: "\<forall>c\<in>set (depending_artifact_builds w i). get_build w3 c \<noteq> None"
    proof
      fix c assume "c \<in> set (depending_artifact_builds w i)"
      then obtain bc where "get_build w c = Some bc" using child_row[OF d] by blast
      then show "get_build w3 c \<noteq> None" using cascaded_get_Some[OF c3] by (metis option.distinct(1))
    qed
    have cn3: "count_not s w3 < n" using n3 Suc.prems(4) by simp
    have "\<exists>w'. for_each ?body w3 (depending_artifact_builds w i) = Some (Inr w')
            \<and> cascaded s w3 w' \<and> closed s w3 w'
            \<and> (\<forall>c\<in>set (depending_artifact_builds w i). row_state w' c = Some s)
            \<and> (\<forall>j b b'. get_build w3 j = Some b \<longrightarrow> get_build w' j = Some b' \<longrightarrow> b' \<noteq> b
                  \<longrightarrow> (\<exists>c\<in>set (depending_artifact_builds w i). cascade_reach w3 s c j))"
      apply (rule for_each_cascade[where AT=AT and n=n, OF s _ d3 ok3 ex3 cn3])
      apply (rule Suc.IH)
         apply assumption+
      done
    then obtain w' where f: "for_each ?body w3 (depending_artifact_builds w i) = Some (Inr w')"
      and c4: "cascaded s w3 w'" and cl4: "closed s w3 w'"
      and st4: "\<forall>c\<in>set (depending_artifact_builds w i). row_state w' c = Some s"
      and ch4: "\<And>j b b'. get_build w3 j = Some b \<Longrightarrow> get_build w' j = Some b' \<Longrightarrow> b' \<noteq> b
               \<Longrightarrow> \<exists>c\<in>set (depending_artifact_builds w i). cascade_reach w3 s c j"
      by blast
    have rs3: "row_state w3 i = Some s" using g3 by (simp add: row_state_def)
    have ri: "row_state w' i = Some s" using cascaded_keeps_s[OF c4 rs3] .
    have self: "cascade_reach w s i i" using g False by (rule cascade_reach.self)
    have p1: "cascaded s w w'" using cascaded_trans[OF c3 c4] .
    have p2: "closed s w w'"
      unfolding closed_def
    proof (intro allI impI, elim conjE)
      fix k j bj
      assume k0: "row_state w k \<noteq> Some s" and k2: "row_state w' k = Some s"
        and gj: "get_build w j = Some bj" and dj: "dep_on_id bj = Some k"
      show "row_state w' j = Some s"
      proof (cases "k = i")
        case True
        then show ?thesis using st4 row_child[OF gj dj] by simp
      next
        case kni: False
        then have k3: "row_state w3 k \<noteq> Some s" using o3 k0 by (simp add: row_state_def)
        show ?thesis
        proof (cases "j = i")
          case True
          then show ?thesis using ri by simp
        next
          case False
          then have "get_build w3 j = Some bj" using o3 gj by simp
          then show ?thesis using cl4 k3 k2 dj unfolding closed_def by blast
        qed
      qed
    qed
    have p4: "\<forall>j bj b'. get_build w j = Some bj \<longrightarrow> get_build w' j = Some b' \<longrightarrow> b' \<noteq> bj
         \<longrightarrow> cascade_reach w s i j"
    proof (intro allI impI)
      fix j bj b'
      assume gj: "get_build w j = Some bj" and gj': "get_build w' j = Some b'" and ne: "b' \<noteq> bj"
      show "cascade_reach w s i j"
      proof (cases "j = i")
        case True
        then show ?thesis using self by simp
      next
        case False
        then have "get_build w3 j = Some bj" using o3 gj by simp
        then obtain c where c: "c \<in> set (depending_artifact_builds w i)" "cascade_reach w3 s c j"
          using ch4[OF _ gj' ne] by blast
        obtain bc where bc: "get_build w c = Some bc" "dep_on_id bc = Some i"
          using child_row[OF d c(1)] by blast
        have "cascade_reach w s c j" using reach_antimono[OF c3 c(2)] .
        then show ?thesis using reach_prepend[OF _ bc self] by blast
      qed
    qed
    have "cascade_post s i w w'" using p1 p2 ri p4 unfolding cascade_post_def by blast
    with t f show ?thesis by simp
  qed
qed

lemmas scenario_defs = world_with_def event_E_def build_A_def build_B_def build_C_def
  chain_world_def world0_def ArtifactType_sample_def build_B_failed_def build_C_late_def
  broken_chain_world_def build_C_done_def done_chain_world_def

lemmas model_defs = get_build_def update_build_def utcnow_def depending_artifact_builds_def
  ArtifactBuild_repr_def validate_state_def validate_type_def ArtifactBuildState_def
  enum_values_def enum_lower_names_def enum_getitem_value_def lower_def lower_char_def
  upper_def upper_char_def py_or_def BUILD_def DONE_def FAILED_def CANCELED_def Let_def
  next_id_def

section \<open>The scenarios are reachable\<close>

lemma chain_world_created:
  "Event_get_or_create world0 ''m1'' ''key'' (PClass TestingEvent) True
     = (world_with [] 0, event_E)"
  "ArtifactBuild_create ArtifactType_sample (world_with [] 0) (Some event_E) ''A''
      (PStr ''image'') None None PNone None None
     = Inr (world_with [build_A] 1, build_A)"
  "ArtifactBuild_create ArtifactType_sample (world_with [build_A] 1) (Some event_E) ''B''
      (PInt 1) None (Some build_A) PNone None None
     = Inr (world_with [build_A, build_B] 2, build_B)"
  "ArtifactBuild_create ArtifactType_sample (world_with [build_A, build_B] 2) (Some event_E) ''C''
      (PInt 1) None (Some build_B) PNone None None
     = Inr (chain_world, build_C)"
  by (simp_all add: scenario_defs model_defs Event_get_or_create_def Event_get_def
        Event_create_def EVENT_TYPES_def EVENT_TYPES_items_def ArtifactBuild_create_def)

lemma broken_chain_world_created:
  "\<exists>w. transition ArtifactType_sample (Suc 0) (world_with [build_A, build_B] 2) 2
           (PInt FAILED) ''build error'' = Some (Inr w) \<and>
        ArtifactBuild_create ArtifactType_sample w (Some event_E) ''C'' (PInt 1) None
           (Some build_B_failed) PNone None None = Inr (broken_chain_world, build_C_late)"
  by (simp add: scenario_defs model_defs ArtifactBuild_create_def)

section \<open>The cascade\<close>

text \<open>
  C1, as stated, fails: in the acyclic chain \<open>A \<leftarrow> B \<leftarrow> C\<close> where \<open>B\<close> is already
  FAILED and \<open>C\<close> was created afterwards, \<open>C\<close> is a descendant of \<open>A\<close>, and
  \<^verbatim>\<open>A.transition(FAILED, ...)\<close> stops at \<open>B\<close>: \<open>C\<close> stays in state BUILD.
\<close>

theorem cascade_stops_at_row_already_in_state:
  "acyclic_forest broken_chain_world \<and> is_descendant broken_chain_world 3 1 \<and>
   states_after (transition ArtifactType_sample (Suc (Suc (Suc (Suc 0)))) broken_chain_world 1
                   (PInt FAILED) ''upstream error'')
     = Some [FAILED, FAILED, BUILD]"
  by (simp add: scenario_defs model_defs states_after_def acyclic_forest_def is_descendant_def
        ancestors_def)

text \<open>
  C1, amended. Let the keys of the table be distinct and every row printable, let the
  row \<open>i\<close> exist and \<open>s\<close> be FAILED or CANCELED. Then \<^verbatim>\<open>transition\<close> on \<open>i\<close>
  returns as soon as the recursion may be deeper than the table is long, whether or not
  the \<^verbatim>\<open>dep_on\<close> links are acyclic. Afterwards every row that the cascade reaches from
  \<open>i\<close> through rows that were not in state \<open>s\<close> (\<open>i\<close> included) is in state \<open>s\<close>,
  and every other row (an ancestor, an unrelated row, a descendant behind a row that was
  already in state \<open>s\<close>) is exactly as it was.
\<close>

theorem transition_cascade_reaches:
  assumes s: "s \<in> {FAILED, CANCELED}"
    and d: "distinct (map ab_id (artifact_builds w))"
    and ok: "repr_ok AT w"
    and g: "get_build w i = Some b"
    and n: "length (artifact_builds w) < n"
  shows "\<exists>w'. transition AT n w i (PInt s) r = Some (Inr w')
           \<and> (\<forall>j. cascade_reach w s i j \<longrightarrow> row_state w' j = Some s)
           \<and> (\<forall>j. \<not> cascade_reach w s i j \<longrightarrow> get_build w' j = get_build w j)"
proof -
  have "count_not s w < n" using n unfolding count_not_def
    by (meson le_less_trans length_filter_le)
  then obtain w' where t: "transition AT n w i (PInt s) r = Some (Inr w')"
    and p: "cascade_post s i w w'"
    using transition_cascade[OF s d ok g] by blast
  have c: "cascaded s w w'" and cl: "closed s w w'" and si: "row_state w' i = Some s"
    and ch: "\<And>j b b'. get_build w j = Some b \<Longrightarrow> get_build w' j = Some b' \<Longrightarrow> b' \<noteq> b
               \<Longrightarrow> cascade_reach w s i j"
    using p unfolding cascade_post_def by blast+
  have r1: "cascade_reach w s i j \<Longrightarrow> row_state w' j = Some s" for j
  proof (induction rule: cascade_reach.induct)
    case (self b)
    then show ?case using si by simp
  next
    case (child k j bj)
    have "row_state w k \<noteq> Some s"
      using reach_not_s[OF child.hyps(1)] by (auto simp: row_state_def)
    then show ?case using cl child unfolding closed_def by blast
  qed
  have r2: "\<not> cascade_reach w s i j \<Longrightarrow> get_build w' j = get_build w j" for j
  proof (cases "get_build w j")
    case None
    then show ?thesis using cascaded_get[OF c, of j] by simp
  next
    case (Some bj)
    assume nr: "\<not> cascade_reach w s i j"
    obtain b' where "get_build w' j = Some b'" using cascaded_get_Some[OF c Some] by blast
    then show ?thesis using ch[OF Some] nr Some by metis
  qed
  show ?thesis using t r1 r2 by blast
qed

text \<open>
  In the chain \<open>A \<leftarrow> B \<leftarrow> C\<close> with all three builds in state BUILD, the cascade from
  \<open>A\<close> reaches \<open>C\<close>.
\<close>

theorem transition_cascade_reaches_witness:
  "\<exists>w'. transition ArtifactType_sample 4 chain_world 1 (PInt FAILED) ''upstream error''
           = Some (Inr w')
     \<and> row_state w' 3 = Some FAILED"
proof -
  have r1: "cascade_reach chain_world FAILED 1 1"
    by (rule cascade_reach.self[where b=build_A]) (simp_all add: scenario_defs model_defs)
  have r2: "cascade_reach chain_world FAILED 1 2"
    by (rule cascade_reach.child[OF r1, where b=build_B])
       (simp_all add: scenario_defs model_defs)
  have r3: "cascade_reach chain_world FAILED 1 3"
    by (rule cascade_reach.child[OF r2, where b=build_C])
       (simp_all add: scenario_defs model_defs)
  have "\<exists>w'. transition ArtifactType_sample 4 chain_world 1 (PInt FAILED) ''upstream error''
               = Some (Inr w')
           \<and> (\<forall>j. cascade_reach chain_world FAILED 1 j \<longrightarrow> row_state w' j = Some FAILED)
           \<and> (\<forall>j. \<not> cascade_reach chain_world FAILED 1 j
                  \<longrightarrow> get_build w' j = get_build chain_world j)"
    by (rule transition_cascade_reaches[where b=build_A])
       (simp_all add: scenario_defs model_defs repr_ok_def)
  with r3 show ?thesis by blast
qed

section \<open>A call that does not change the state\<close>

lemma repr_state_name:
  "ArtifactBuild_repr AT w b = Inr rp
     \<Longrightarrow> \<exists>sn. enum_call_name ArtifactBuildState (PInt (state b)) = Inr sn"
  by (auto simp: ArtifactBuild_repr_def split: sum.splits)

lemma transition_same_repr:
  assumes g: "get_build w i = Some b"
    and rp: "ArtifactBuild_repr AT w b = Inr rp"
    and sn: "enum_call_name ArtifactBuildState (PInt (state b)) = Inr sn"
  shows "transition AT (Suc n) w i (PInt (state b)) r =
           Some (Inr (w\<lparr>log_records := log_records w @
                        [\<lparr>level = (if state b = FAILED then ERROR else INFO),
                          build_repr = rp, state_name = sn, reason = r\<rparr>]\<rparr>))"
  apply (subst transition.simps(2))
  apply (simp only: g option.case sn sum.case rp)
  apply (simp add: Let_def)
  done

text \<open>
  C2. When the row \<open>i\<close> exists, can be printed and is in state \<open>s\<close>, a call of
  \<^verbatim>\<open>transition\<close> with \<open>s\<close> returns a world whose tables are those before the call:
  no row has another \<^verbatim>\<open>state\<close>, \<^verbatim>\<open>state_reason\<close> or \<^verbatim>\<open>time_completed\<close>, the
  clock has not been read. The call returns at recursion depth 1, which leaves no room
  for a call on a dependent, and the log has grown by the one record of the call itself.
\<close>

theorem transition_same_state_no_change:
  assumes g: "get_build w i = Some b"
    and rp: "ArtifactBuild_repr AT w b = Inr rp"
    and eqs: "state b = s"
  shows "\<exists>w'. (\<forall>n. transition AT (Suc n) w i (PInt s) r = Some (Inr w'))
           \<and> artifact_builds w' = artifact_builds w
           \<and> events w' = events w \<and> ticks w' = ticks w
           \<and> length (log_records w') = Suc (length (log_records w))"
proof -
  obtain sn where sn: "enum_call_name ArtifactBuildState (PInt (state b)) = Inr sn"
    using repr_state_name[OF rp] by blast
  show ?thesis
    using transition_same_repr[OF g rp sn, of _ r] eqs
    by (intro exI[where x="w\<lparr>log_records := log_records w @
                        [\<lparr>level = (if state b = FAILED then ERROR else INFO),
                          build_repr = rp, state_name = sn, reason = r\<rparr>]\<rparr>"]) simp
qed

theorem transition_same_state_no_change_witness:
  "\<exists>w'. (\<forall>n. transition ArtifactType_sample (Suc n) chain_world 2 (PInt BUILD) ''again''
                = Some (Inr w'))
     \<and> artifact_builds w' = artifact_builds chain_world \<and> events w' = events chain_world
     \<and> ticks w' = ticks chain_world
     \<and> length (log_records w') = Suc (length (log_records chain_world))"
  by (rule transition_same_state_no_change
        [where b=build_B and rp="''<ArtifactBuild B, type IMAGE, state BUILD, event m1>''"])
     (simp_all add: scenario_defs model_defs)

text \<open>
  C7, as stated, fails: the log call comes before the comparison of the states. The
  build \<open>A\<close>, alone in its table and in state BUILD, is moved to BUILD again; the log was
  empty and now holds a record.
\<close>

theorem transition_same_state_logs:
  "log_records (world_with [build_A] 1) = [] \<and>
   map_option log_records
     (world_after (transition ArtifactType_sample (Suc 0) (world_with [build_A] 1) 1 (PInt BUILD)
                     ''still building''))
     = Some [\<lparr>level = INFO,
              build_repr = ''<ArtifactBuild A, type IMAGE, state BUILD, event m1>'',
              state_name = ''BUILD'', reason = ''still building''\<rparr>]"
  by (simp add: scenario_defs model_defs world_after_def)

text \<open>
  C7, amended. A call of \<^verbatim>\<open>transition\<close> with the state the build is in writes one log
  record, at error level for FAILED and at info level otherwise, carrying the build, the
  name of the state and the reason, and returns with nothing else changed.
\<close>

theorem transition_same_state_one_log_record:
  assumes g: "get_build w i = Some b"
    and rp: "ArtifactBuild_repr AT w b = Inr rp"
    and sn: "enum_call_name ArtifactBuildState (PInt s) = Inr sn"
    and eqs: "state b = s"
  shows "transition AT (Suc n) w i (PInt s) r =
           Some (Inr (w\<lparr>log_records := log_records w @
                        [\<lparr>level = (if s = FAILED then ERROR else INFO),
                          build_repr = rp, state_name = sn, reason = r\<rparr>]\<rparr>))"
  using transition_same_repr[OF g rp, of sn n r] sn eqs by simp

theorem transition_same_state_one_log_record_witness:
  "transition ArtifactType_sample (Suc 0) broken_chain_world 2 (PInt FAILED) ''failed again'' =
     Some (Inr (broken_chain_world\<lparr>log_records := log_records broken_chain_world @
                 [\<lparr>level = (if FAILED = FAILED then ERROR else INFO),
                   build_repr = ''<ArtifactBuild B, type IMAGE, state FAILED, event m1>'',
                   state_name = ''FAILED'', reason = ''failed again''\<rparr>]\<rparr>))"
  by (rule transition_same_state_one_log_record[where b=build_B_failed])
     (simp_all add: scenario_defs model_defs)

section \<open>Events\<close>

text \<open>
  C4. The docstring of \<^verbatim>\<open>has_all_builds_in_state\<close> promises what the claim says, but
  the filter \<^verbatim>\<open>state != state\<close> compares the argument with itself and selects no row:
  for the event \<open>E\<close>, whose three builds are all in state BUILD, the method answers
  \<^verbatim>\<open>True\<close> for the state DONE.
\<close>

theorem has_all_builds_in_state_ignores_states:
  "map state (filter (\<lambda>b. event_id b = Some (ev_id event_E)) (artifact_builds chain_world))
     = [BUILD, BUILD, BUILD] \<and>
   has_all_builds_in_state chain_world event_E (PInt DONE) = True"
  by (simp add: scenario_defs model_defs has_all_builds_in_state_def)

lemma find_append_list:
  "find P (xs @ ys) = (case find P xs of None \<Rightarrow> find P ys | Some x \<Rightarrow> Some x)"
  by (induction xs) auto

text \<open>
  C6. Two calls of \<^verbatim>\<open>get_or_create\<close> in a row with the same message id return the same
  event, whatever the other arguments of the second call are; that event carries the
  message id and is a row of the table, and the second call changes nothing. When no row
  of the table had that message id, the first call has appended the event and exactly one
  row has the message id afterwards; when a row had it, the first call adds no row either.
\<close>

theorem get_or_create_twice:
  assumes "Event_get_or_create w m k t rel = (w1, e1)"
    and "Event_get_or_create w1 m k' t' rel' = (w2, e2)"
  shows "e2 = e1 \<and> w2 = w1 \<and> message_id e1 = m \<and> e1 \<in> set (events w1)
         \<and> ((\<forall>e\<in>set (events w). message_id e \<noteq> m) \<longrightarrow>
              events w1 = events w @ [e1] \<and>
              length (filter (\<lambda>e. message_id e = m) (events w1)) = 1)
         \<and> ((\<exists>e\<in>set (events w). message_id e = m) \<longrightarrow>
              w1 = w \<and>
              length (filter (\<lambda>e. message_id e = m) (events w1))
                = length (filter (\<lambda>e. message_id e = m) (events w)))"
proof (cases "\<forall>e\<in>set (events w). message_id e \<noteq> m")
  case True
  then have none: "Event_get w m = None"
    by (auto simp: Event_get_def find_None_iff)
  have nf: "filter (\<lambda>e. message_id e = m) (events w) = []"
    using True by (auto simp: filter_empty_conv)
  have c: "Event_create w m k t rel = (w1, e1)"
    using assms(1) none by (simp add: Event_get_or_create_def)
  then have ev: "events w1 = events w @ [e1]" and mid: "message_id e1 = m"
    by (auto simp: Event_create_def Let_def)
  have "Event_get w1 m = Some e1"
    using none mid by (simp add: Event_get_def ev find_append_list)
  then have "e2 = e1 \<and> w2 = w1" using assms(2) by (simp add: Event_get_or_create_def)
  then show ?thesis using True ev mid nf by simp
next
  case False
  then obtain e where e: "Event_get w m = Some e"
    by (cases "Event_get w m") (auto simp: Event_get_def find_None_iff)
  then have 1: "w1 = w" "e1 = e" using assms(1) by (simp_all add: Event_get_or_create_def)
  have 2: "message_id e = m" "e \<in> set (events w)"
    using e by (auto simp: Event_get_def find_Some_iff)
  have "e2 = e1 \<and> w2 = w1" using assms(2) e 1 by (simp add: Event_get_or_create_def)
  then show ?thesis using False 1 2 by simp
qed

theorem get_or_create_twice_witness:
  "snd (Event_get_or_create
          (fst (Event_get_or_create world0 ''m1'' ''key'' (PClass TestingEvent) True))
          ''m1'' ''other'' (PInt 7) False) = event_E
   \<and> message_id event_E = ''m1''
   \<and> events (fst (Event_get_or_create
          (fst (Event_get_or_create world0 ''m1'' ''key'' (PClass TestingEvent) True))
          ''m1'' ''other'' (PInt 7) False)) = [event_E]
   \<and> length (filter (\<lambda>e. message_id e = ''m1'') [event_E]) = 1"
  using get_or_create_twice
          [of world0 "''m1''" "''key''" "PClass TestingEvent" True "world_with [] 0" event_E
            "''other''" "PInt 7" False
            "fst (Event_get_or_create (world_with [] 0) ''m1'' ''other'' (PInt 7) False)"
            "snd (Event_get_or_create (world_with [] 0) ''m1'' ''other'' (PInt 7) False)"]
  by (simp add: chain_world_created(1)) (simp add: scenario_defs)

section \<open>Creation of builds\<close>

text \<open>
  C10. When the type passes its validator, \<^verbatim>\<open>ArtifactBuild.create\<close> called without a
  state (\<^verbatim>\<open>state=None\<close>) appends a build in state BUILD whose \<^verbatim>\<open>time_submitted\<close>
  is the reading of the clock taken by the call and whose \<^verbatim>\<open>time_completed\<close> is null.
\<close>

theorem create_default_state:
  assumes "validate_type AT ''type'' ty = Inr t"
  shows "\<exists>w' b. ArtifactBuild_create AT w ev nm ty bid dep PNone onvr rnvr = Inr (w', b)
          \<and> state b = BUILD \<and> time_submitted b = clock w (ticks w) \<and> time_completed b = None
          \<and> artifact_builds w' = artifact_builds w @ [b]"
  using assms
  by (simp add: ArtifactBuild_create_def utcnow_def py_or_def validate_state_def
      ArtifactBuildState_def enum_values_def BUILD_def Let_def)

theorem create_default_state_witness:
  "\<exists>w' b. ArtifactBuild_create ArtifactType_sample (world_with [] 0) (Some event_E) ''A''
             (PStr ''image'') None None PNone None None = Inr (w', b)
          \<and> state b = BUILD \<and> time_submitted b = clock (world_with [] 0) (ticks (world_with [] 0))
          \<and> time_completed b = None
          \<and> artifact_builds w' = artifact_builds (world_with [] 0) @ [b]"
  by (rule create_default_state[where t=1]) (simp add: scenario_defs model_defs)

section \<open>The registry of event types\<close>

text \<open>
  C9, as stated, fails for encoding: \<^verbatim>\<open>Event.create\<close> stores a value that is not a key
  of \<^verbatim>\<open>EVENT_TYPES\<close> as it is. The value 42, which is the code of no event class, becomes
  the \<^verbatim>\<open>event_type_id\<close> of the new event.
\<close>

theorem create_stores_unknown_event_type:
  "event_type_id (snd (Event_create world0 ''m2'' ''key'' (PInt 42) True)) = PInt 42
   \<and> INVERSE_EVENT_TYPES 42 = None"
  by (simp add: Event_create_def Let_def INVERSE_EVENT_TYPES_def EVENT_TYPES_items_def)

lemma EVENT_TYPES_inverse: "EVENT_TYPES c = Some v \<Longrightarrow> INVERSE_EVENT_TYPES v = Some c"
  by (cases c) (auto simp: EVENT_TYPES_def INVERSE_EVENT_TYPES_def EVENT_TYPES_items_def)

text \<open>
  C9, amended. \<^verbatim>\<open>Event.create\<close> stores the code of an event class that is a key of
  \<^verbatim>\<open>EVENT_TYPES\<close>, and \<^verbatim>\<open>Event.event_type\<close> gives that class back; any other value
  is stored unchanged and no error is raised; \<^verbatim>\<open>Event.event_type\<close> raises
  \<^verbatim>\<open>KeyError\<close> for an \<^verbatim>\<open>event_type_id\<close> that is the code of no class.
\<close>

theorem event_type_registry:
  "(EVENT_TYPES c = Some v \<longrightarrow>
      event_type_id (snd (Event_create w m k (PClass c) rel)) = PInt v \<and>
      Event_event_type (snd (Event_create w m k (PClass c) rel)) = Inr c)
   \<and> ((\<forall>c. t = PClass c \<longrightarrow> EVENT_TYPES c = None) \<longrightarrow>
      event_type_id (snd (Event_create w m k t rel)) = t)
   \<and> ((\<forall>v. event_type_id e = PInt v \<longrightarrow> INVERSE_EVENT_TYPES v = None) \<longrightarrow>
      Event_event_type e = Inl (KeyError (event_type_id e)))"
proof (intro conjI impI)
  assume a: "EVENT_TYPES c = Some v"
  show "event_type_id (snd (Event_create w m k (PClass c) rel)) = PInt v"
    using a by (simp add: Event_create_def Let_def)
  show "Event_event_type (snd (Event_create w m k (PClass c) rel)) = Inr c"
    using a EVENT_TYPES_inverse[OF a] by (simp add: Event_create_def Let_def Event_event_type_def)
next
  assume "\<forall>c. t = PClass c \<longrightarrow> EVENT_TYPES c = None"
  then show "event_type_id (snd (Event_create w m k t rel)) = t"
    by (cases t) (auto simp: Event_create_def Let_def)
next
  assume "\<forall>v. event_type_id e = PInt v \<longrightarrow> INVERSE_EVENT_TYPES v = None"
  then show "Event_event_type e = Inl (KeyError (event_type_id e))"
    by (cases "event_type_id e") (auto simp: Event_event_type_def)
qed

theorem event_type_registry_witness:
  "event_type_id (snd (Event_create world0 ''m1'' ''key'' (PClass TestingEvent) True)) = PInt 3
   \<and> Event_event_type (snd (Event_create world0 ''m1'' ''key'' (PClass TestingEvent) True))
       = Inr TestingEvent
   \<and> event_type_id (snd (Event_create world0 ''m1'' ''key'' (PClass BaseEvent) True))
       = PClass BaseEvent
   \<and> Event_event_type (event_E\<lparr>event_type_id := PInt 42\<rparr>) = Inl (KeyError (PInt 42))"
  using event_type_registry[of TestingEvent 3 world0 "''m1''" "''key''" True "PClass BaseEvent"
           "event_E\<lparr>event_type_id := PInt 42\<rparr>"]
  by (simp add: EVENT_TYPES_def INVERSE_EVENT_TYPES_def EVENT_TYPES_items_def)

section \<open>Validation of state and type\<close>

lemma find_name:
  "(n, v) \<in> set E \<Longrightarrow> distinct (map fst E) \<Longrightarrow> find (\<lambda>m. fst m = n) E = Some (n, v)"
proof (induction E)
  case Nil
  then show ?case by simp
next
  case (Cons a E)
  then show ?case by (cases a) (auto simp: rev_image_eqI)
qed

lemma validate_state_invalid:
  "\<not> in_ints field (enum_values ArtifactBuildState) \<Longrightarrow>
   \<not> in_strs field (enum_lower_names ArtifactBuildState) \<Longrightarrow>
   validate_state key field = Inl (ValueError key field ArtifactBuildState)"
  by (simp add: validate_state_def)

lemma validate_type_invalid:
  "\<not> in_ints field (enum_values AT) \<Longrightarrow> \<not> in_strs field (enum_lower_names AT) \<Longrightarrow>
   validate_type AT key field = Inl (ValueError key field AT)"
  by (simp add: validate_type_def)

lemma validate_type_code:
  "(n, v) \<in> set AT \<Longrightarrow> validate_type AT key (PInt v) = Inr v"
  by (auto simp: validate_type_def enum_values_def rev_image_eqI)

lemma validate_type_name:
  assumes "(n, v) \<in> set AT" "distinct (map fst AT)" "\<forall>m\<in>set AT. upper (lower (fst m)) = fst m"
  shows "validate_type AT key (PStr (lower n)) = Inr v"
proof -
  have "lower n \<in> set (enum_lower_names AT)"
    using assms(1) by (auto simp: enum_lower_names_def rev_image_eqI)
  moreover have "upper (lower n) = n" using assms(1,3) by auto
  ultimately show ?thesis
    using find_name[OF assms(1,2)] by (simp add: validate_type_def enum_getitem_value_def)
qed

lemma ArtifactBuildState_names:
  "distinct (map fst ArtifactBuildState)" "\<forall>m\<in>set ArtifactBuildState. upper (lower (fst m)) = fst m"
  by (simp_all add: ArtifactBuildState_def upper_def lower_def upper_char_def lower_char_def)

lemma validate_state_is_validate_type:
  "validate_state key field = validate_type ArtifactBuildState key field"
  by (simp add: validate_state_def validate_type_def)

text \<open>
  C8. Let the names of \<^verbatim>\<open>ArtifactType\<close> be distinct and in upper case, as those of
  \<^verbatim>\<open>ArtifactBuildState\<close> are. A value that is neither the code nor the lower-cased name
  of a member is refused by the validator with a \<^verbatim>\<open>ValueError\<close> that carries the field,
  the value and the enumeration; the assignment then raises and yields no new world, and
  so does \<^verbatim>\<open>ArtifactBuild.create\<close>. The code of a member is accepted as it is and the
  lower-cased name of a member is replaced by its code, which the assignment stores.
\<close>

theorem enum_validation:
  assumes d: "distinct (map fst AT)"
    and up: "\<forall>m\<in>set AT. upper (lower (fst m)) = fst m"
  shows "(\<not> in_ints field (enum_values ArtifactBuildState)
            \<and> \<not> in_strs field (enum_lower_names ArtifactBuildState) \<longrightarrow>
            validate_state key field = Inl (ValueError key field ArtifactBuildState)
            \<and> set_state w i field = Inl (ValueError ''state'' field ArtifactBuildState))
       \<and> (\<not> in_ints field (enum_values AT) \<and> \<not> in_strs field (enum_lower_names AT) \<longrightarrow>
            validate_type AT key field = Inl (ValueError key field AT)
            \<and> set_type AT w i field = Inl (ValueError ''type'' field AT)
            \<and> ArtifactBuild_create AT w ev nm field bid dep st onvr rnvr
                = Inl (ValueError ''type'' field AT))
       \<and> ((n, v) \<in> set ArtifactBuildState \<longrightarrow>
            validate_state key (PInt v) = Inr v
            \<and> validate_state key (PStr (lower n)) = Inr v
            \<and> set_state w i (PStr (lower n)) = Inr (update_build i (\<lambda>b. b\<lparr>state := v\<rparr>) w))
       \<and> ((n, v) \<in> set AT \<longrightarrow>
            validate_type AT key (PInt v) = Inr v
            \<and> validate_type AT key (PStr (lower n)) = Inr v
            \<and> set_type AT w i (PStr (lower n)) = Inr (update_build i (\<lambda>b. b\<lparr>type := v\<rparr>) w))"
proof (intro conjI impI)
  assume a: "\<not> in_ints field (enum_values ArtifactBuildState)
            \<and> \<not> in_strs field (enum_lower_names ArtifactBuildState)"
  then show "validate_state key field = Inl (ValueError key field ArtifactBuildState)"
    by (simp add: validate_state_invalid)
  from a show "set_state w i field = Inl (ValueError ''state'' field ArtifactBuildState)"
    by (simp add: set_state_def validate_state_invalid)
next
  assume a: "\<not> in_ints field (enum_values AT) \<and> \<not> in_strs field (enum_lower_names AT)"
  then show "validate_type AT key field = Inl (ValueError key field AT)"
    by (simp add: validate_type_invalid)
  from a show "set_type AT w i field = Inl (ValueError ''type'' field AT)"
    by (simp add: set_type_def validate_type_invalid)
  from a show "ArtifactBuild_create AT w ev nm field bid dep st onvr rnvr
                = Inl (ValueError ''type'' field AT)"
    by (simp add: ArtifactBuild_create_def utcnow_def validate_type_invalid)
next
  assume a: "(n, v) \<in> set ArtifactBuildState"
  show "validate_state key (PInt v) = Inr v"
    using validate_type_code[OF a] by (simp add: validate_state_is_validate_type)
  show s: "validate_state key (PStr (lower n)) = Inr v"
    using validate_type_name[OF a ArtifactBuildState_names]
    by (simp add: validate_state_is_validate_type)
  show "set_state w i (PStr (lower n)) = Inr (update_build i (\<lambda>b. b\<lparr>state := v\<rparr>) w)"
    using validate_type_name[OF a ArtifactBuildState_names, of "''state''"]
    by (simp add: set_state_def validate_state_is_validate_type)
next
  assume a: "(n, v) \<in> set AT"
  show "validate_type AT key (PInt v) = Inr v" using validate_type_code[OF a] .
  show "validate_type AT key (PStr (lower n)) = Inr v" using validate_type_name[OF a d up] .
  show "set_type AT w i (PStr (lower n)) = Inr (update_build i (\<lambda>b. b\<lparr>type := v\<rparr>) w)"
    using validate_type_name[OF a d up, of "''type''"] by (simp add: set_type_def)
qed

theorem enum_validation_witness:
  "validate_state ''state'' (PStr ''bogus'') = Inl (ValueError ''state'' (PStr ''bogus'') ArtifactBuildState)
   \<and> set_type ArtifactType_sample chain_world 1 (PInt 9999)
       = Inl (ValueError ''type'' (PInt 9999) ArtifactType_sample)
   \<and> validate_state ''state'' (PStr ''failed'') = Inr 2
   \<and> validate_type ArtifactType_sample ''type'' (PStr ''module'') = Inr 2"
proof -
  have d: "distinct (map fst ArtifactType_sample)"
    and up: "\<forall>m\<in>set ArtifactType_sample. upper (lower (fst m)) = fst m"
    by (simp_all add: ArtifactType_sample_def upper_def lower_def upper_char_def lower_char_def)
  have l: "lower ''FAILED'' = ''failed''" "lower ''MODULE'' = ''module''"
    by (simp_all add: lower_def lower_char_def)
  show ?thesis
    using enum_validation[OF d up, of "PStr ''bogus''" "''state''" chain_world 1 None "''x''" None None PNone None None "''FAILED''" 2]
      enum_validation[OF d up, of "PInt 9999" "''type''" chain_world 1 None "''x''" None None PNone None None "''MODULE''" 2]
    by (simp add: l) (simp add: ArtifactBuildState_def ArtifactType_sample_def enum_values_def enum_lower_names_def lower_def lower_char_def)
qed

section \<open>Completion times and the chain scenario\<close>

lemma get_build_map:
  assumes "artifact_builds w' = map (\<lambda>x. if ab_id x = i then f x else x) (artifact_builds w)"
    and "\<And>x. ab_id (f x) = ab_id x"
  shows "get_build w' j = map_option (\<lambda>x. if ab_id x = i then f x else x) (get_build w j)"
proof -
  have "(\<lambda>x. ab_id (if ab_id x = i then f x else x) = j) = (\<lambda>x. ab_id x = j)"
    using assms(2) by auto
  then show ?thesis by (simp add: get_build_def assms(1) find_map_list)
qed

lemma update_cascaded:
  assumes d: "distinct (map ab_id (artifact_builds w))"
    and g: "get_build w i = Some b"
    and ne: "state b \<noteq> s"
    and ab: "artifact_builds w' =
               map (\<lambda>x. if ab_id x = i
                         then x\<lparr>state := s, state_reason := Some r, time_completed := t x\<rparr>
                         else x) (artifact_builds w)"
    and ev: "events w' = events w" "clock w' = clock w"
  shows "cascaded s w w'"
proof -
  have uniq: "\<And>x. x \<in> set (artifact_builds w) \<Longrightarrow> ab_id x = i \<Longrightarrow> x = b"
    using distinct_get_unique[OF d] g unfolding get_build_def by blast
  have "\<forall>x\<in>set (artifact_builds w).
          marked s x (if ab_id x = i
                      then x\<lparr>state := s, state_reason := Some r, time_completed := t x\<rparr> else x)"
    using uniq ne by (auto simp: marked_def)
  then show ?thesis
    by (simp add: cascaded_def ab ev list_all2_map2 list_all2_same)
qed

lemma transition_plain:
  assumes s: "s \<in> {BUILD, DONE}"
    and ok: "repr_ok AT w"
    and g: "get_build w i = Some b"
    and ne: "state b \<noteq> s"
  shows "\<exists>w'. transition AT (Suc n) w i (PInt s) r = Some (Inr w')
           \<and> artifact_builds w' =
               map (\<lambda>x. if ab_id x = i
                         then x\<lparr>state := s, state_reason := Some r,
                                time_completed := (if s = DONE then Some (clock w (ticks w))
                                                   else time_completed x)\<rparr>
                         else x) (artifact_builds w)
           \<and> events w' = events w \<and> clock w' = clock w"
proof -
  have sv: "s \<in> {BUILD, DONE, FAILED, CANCELED}" using s by auto
  obtain sn where sn: "enum_call_name ArtifactBuildState (PInt s) = Inr sn"
    using valid_state_name[OF sv] by blast
  obtain rp where rp: "ArtifactBuild_repr AT w b = Inr rp"
    using repr_ok_get[OF ok g] by blast
  have v: "validate_state ''state'' (PInt s) = Inr s"
    using valid_state_validate[OF sv] .
  have nc: "s \<noteq> FAILED" "s \<noteq> CANCELED"
    using s by (auto simp: BUILD_def DONE_def FAILED_def CANCELED_def)
  have m: "(s = DONE \<or> s = FAILED \<or> s = CANCELED) = (s = DONE)"
    "(s = FAILED \<or> s = CANCELED) = False"
    using nc by auto
  show ?thesis
    apply (subst transition.simps(2))
    apply (simp only: g option.case sn sum.case rp)
    apply (simp add: ne v nc m Let_def update_build_def utcnow_def comp_def)
    done
qed

lemma cascade_post_reach:
  assumes p: "cascade_post s i w w'" and r: "cascade_reach w s i j"
  shows "row_state w' j = Some s"
  using r
proof (induction rule: cascade_reach.induct)
  case (self b)
  then show ?case using p by (simp add: cascade_post_def)
next
  case (child k j bj)
  have "row_state w k \<noteq> Some s"
    using reach_not_s[OF child.hyps(1)] by (auto simp: row_state_def)
  moreover have "closed s w w'" using p by (simp add: cascade_post_def)
  ultimately show ?case using child unfolding closed_def by blast
qed

lemma transition_cascade_row:
  assumes s: "s \<in> {FAILED, CANCELED}"
    and d: "distinct (map ab_id (artifact_builds w))"
    and ok: "repr_ok AT w"
    and g: "get_build w i = Some b"
    and ne: "state b \<noteq> s"
    and n: "count_not s w < n"
  shows "\<exists>w'. transition AT n w i (PInt s) r = Some (Inr w')
           \<and> get_build w' i = Some (b\<lparr>state := s, state_reason := Some r,
                                       time_completed := Some (clock w (ticks w))\<rparr>)"
proof -
  obtain m where m: "n = Suc m" using n by (cases n) auto
  have sv: "s \<in> {BUILD, DONE, FAILED, CANCELED}" using s by auto
  let ?body = "\<lambda>v build. transition AT m v build (PInt s)
                        ''Cannot build artifact, because its dependency cannot be built.''"
  obtain w3 where
    t: "transition AT (Suc m) w i (PInt s) r = for_each ?body w3 (depending_artifact_builds w i)"
    and chain_done_then_failed: "cascaded s w w3"
    and g3: "get_build w3 i = Some (b\<lparr>state := s, state_reason := Some r,
                                      time_completed := Some (clock w (ticks w))\<rparr>)"
    and n3: "count_not s w3 < count_not s w"
    using transition_enter[OF s d ok g ne, of m r] by blast
  have d3: "distinct (map ab_id (artifact_builds w3))" using d cascaded_ids[OF chain_done_then_failed] by simp
  have ok3: "repr_ok AT w3" using cascaded_repr_ok[OF chain_done_then_failed sv ok] .
  have ex3: "\<forall>c\<in>set (depending_artifact_builds w i). get_build w3 c \<noteq> None"
  proof
    fix c assume "c \<in> set (depending_artifact_builds w i)"
    then obtain bc where "get_build w c = Some bc" using child_row[OF d] by blast
    then show "get_build w3 c \<noteq> None"
      using cascaded_get_Some[OF chain_done_then_failed] by (metis option.distinct(1))
  qed
  have cn3: "count_not s w3 < m" using n3 n m by simp
  have "\<exists>w'. for_each ?body w3 (depending_artifact_builds w i) = Some (Inr w')
            \<and> cascaded s w3 w' \<and> closed s w3 w'
            \<and> (\<forall>c\<in>set (depending_artifact_builds w i). row_state w' c = Some s)
            \<and> (\<forall>j b b'. get_build w3 j = Some b \<longrightarrow> get_build w' j = Some b' \<longrightarrow> b' \<noteq> b
                  \<longrightarrow> (\<exists>c\<in>set (depending_artifact_builds w i). cascade_reach w3 s c j))"
    apply (rule for_each_cascade[where AT=AT and n=m, OF s _ d3 ok3 ex3 cn3])
    apply (rule transition_cascade[OF s])
       apply assumption+
    done
  then obtain w' where f: "for_each ?body w3 (depending_artifact_builds w i) = Some (Inr w')"
    and c4: "cascaded s w3 w'"
    by blast
  obtain b' where b': "get_build w' i = Some b'"
    and mk: "marked s (b\<lparr>state := s, state_reason := Some r,
                          time_completed := Some (clock w (ticks w))\<rparr>) b'"
    using cascaded_get_Some[OF c4 g3] by blast
  have "b' = b\<lparr>state := s, state_reason := Some r, time_completed := Some (clock w (ticks w))\<rparr>"
    using marked_keeps[OF mk] by simp
  with t f b' m show ?thesis by simp
qed

text \<open>
  C5, as stated, fails: a build created directly in the state DONE is in a terminal state
  and its \<^verbatim>\<open>time_completed\<close> is null.
\<close>

theorem create_terminal_without_time_completed:
  "map_option state
     (created_build (ArtifactBuild_create ArtifactType_sample (world_with [] 0) (Some event_E) ''A''
                       (PStr ''image'') None None (PInt DONE) None None)) = Some DONE
   \<and> map_option time_completed
     (created_build (ArtifactBuild_create ArtifactType_sample (world_with [] 0) (Some event_E) ''A''
                       (PStr ''image'') None None (PInt DONE) None None)) = Some None"
  by (simp add: scenario_defs model_defs ArtifactBuild_create_def created_build_def)

text \<open>
  C5, amended. A call of \<^verbatim>\<open>transition\<close> that changes the state of a build to DONE,
  FAILED or CANCELED sets \<^verbatim>\<open>time_completed\<close> to the reading of the clock taken by the
  call, also when the build was in another terminal state and had a completion time; a
  call that does not change the state, or changes it to BUILD, leaves
  \<^verbatim>\<open>time_completed\<close> as it was, so no call resets it to null.
  \<^verbatim>\<open>ArtifactBuild.create\<close> leaves \<^verbatim>\<open>time_completed\<close> null whatever state is given.
\<close>

theorem transition_time_completed:
  assumes s: "s \<in> {BUILD, DONE, FAILED, CANCELED}"
    and d: "distinct (map ab_id (artifact_builds w))"
    and ok: "repr_ok AT w"
    and g: "get_build w i = Some b"
    and n: "length (artifact_builds w) < n"
  shows "(\<exists>w' b'. transition AT n w i (PInt s) r = Some (Inr w') \<and> get_build w' i = Some b'
            \<and> time_completed b' =
                (if state b \<noteq> s \<and> s \<in> {DONE, FAILED, CANCELED} then Some (clock w (ticks w))
                 else time_completed b))
         \<and> (ArtifactBuild_create AT v ev nm ty bid dep st onvr rnvr = Inr (v', c)
              \<longrightarrow> time_completed c = None)"
proof
  obtain m where m: "n = Suc m" using n by (cases n) auto
  have cn: "count_not s w < n" using n unfolding count_not_def
    by (meson le_less_trans length_filter_le)
  show "\<exists>w' b'. transition AT n w i (PInt s) r = Some (Inr w') \<and> get_build w' i = Some b'
            \<and> time_completed b' =
                (if state b \<noteq> s \<and> s \<in> {DONE, FAILED, CANCELED} then Some (clock w (ticks w))
                 else time_completed b)"
  proof (cases "state b = s")
    case True
    obtain rp sn where
      "transition AT (Suc m) w i (PInt s) r =
               Some (Inr (w\<lparr>log_records := log_records w @
                            [\<lparr>level = (if s = FAILED then ERROR else INFO),
                              build_repr = rp, state_name = sn, reason = r\<rparr>]\<rparr>))"
      using transition_same[OF s ok g True] by blast
    then show ?thesis using True g m by simp
  next
    case False
    show ?thesis
    proof (cases "s \<in> {FAILED, CANCELED}")
      case True
      then show ?thesis using transition_cascade_row[OF True d ok g False cn, of r] False by auto
    next
      case nc: False
      then have s2: "s \<in> {BUILD, DONE}" using s by auto
      obtain w' where t: "transition AT (Suc m) w i (PInt s) r = Some (Inr w')"
        and ab: "artifact_builds w' =
               map (\<lambda>x. if ab_id x = i
                         then x\<lparr>state := s, state_reason := Some r,
                                time_completed := (if s = DONE then Some (clock w (ticks w))
                                                   else time_completed x)\<rparr>
                         else x) (artifact_builds w)"
        using transition_plain[OF s2 ok g False, of m r] by blast
      have "get_build w' i =
              Some (b\<lparr>state := s, state_reason := Some r,
                      time_completed := (if s = DONE then Some (clock w (ticks w))
                                         else time_completed b)\<rparr>)"
        using get_build_id[OF g] by (subst get_build_map[OF ab]) (simp_all add: g)
      then show ?thesis using t m False nc s2
        by (auto simp: BUILD_def DONE_def)
    qed
  qed
next
  show "ArtifactBuild_create AT v ev nm ty bid dep st onvr rnvr = Inr (v', c)
              \<longrightarrow> time_completed c = None"
    by (auto simp: ArtifactBuild_create_def utcnow_def Let_def split: sum.splits)
qed

lemma done_chain_world_reached:
  "transition ArtifactType_sample (Suc 0) chain_world 3 (PInt DONE) ''built''
     = Some (Inr done_chain_world)"
  by (simp add: scenario_defs model_defs)

text \<open>
  The build \<open>C\<close>, DONE since 1003, is moved to FAILED: its completion time becomes 1004.
\<close>

theorem transition_time_completed_witness:
  "(\<exists>w' b'. transition ArtifactType_sample 4 done_chain_world 3 (PInt FAILED) ''late failure''
               = Some (Inr w')
       \<and> get_build w' 3 = Some b' \<and> time_completed b' = Some 1004)
   \<and> map_option time_completed (get_build done_chain_world 3) = Some (Some 1003)
   \<and> time_completed build_A = None"
  using transition_time_completed[of FAILED done_chain_world ArtifactType_sample 3 build_C_done 4 "''late failure''"
            "world_with [] 0" "Some event_E" "''A''" "PStr ''image''" None None PNone None None
            "world_with [build_A] 1" build_A]
  by (simp add: chain_world_created(2)) (simp add: scenario_defs model_defs repr_ok_def)

text \<open>
  C3, as stated, fails: after \<open>C\<close> has been moved to DONE, moving \<open>A\<close> to FAILED moves
  \<open>B\<close> and then \<open>C\<close> to FAILED; \<open>C\<close> does not stay DONE.
\<close>

theorem done_descendant_is_failed_by_cascade:
  "transition ArtifactType_sample (Suc 0) chain_world 3 (PInt DONE) ''built''
     = Some (Inr done_chain_world)
   \<and> states_after (transition ArtifactType_sample (Suc (Suc (Suc (Suc 0)))) done_chain_world 1
                     (PInt FAILED) ''upstream error'') = Some [FAILED, FAILED, FAILED]
   \<and> states_after (transition ArtifactType_sample (Suc (Suc (Suc (Suc 0)))) done_chain_world 1
                     (PInt FAILED) ''upstream error'') \<noteq> Some [FAILED, FAILED, DONE]"
  by (simp add: scenario_defs model_defs states_after_def)

text \<open>
  C3, amended. In a chain \<open>a \<leftarrow> b \<leftarrow> c\<close> of builds in state BUILD, moving \<open>c\<close> to DONE
  leaves \<open>a\<close> and \<open>b\<close> in state BUILD, and moving \<open>a\<close> to FAILED afterwards leaves all
  three builds in state FAILED: the cascade enters every dependent that is not FAILED,
  the DONE build \<open>c\<close> included.
\<close>

theorem chain_done_then_failed:
  assumes d: "distinct (map ab_id (artifact_builds w))"
    and ok: "repr_ok AT w"
    and ga: "get_build w a = Some ba" and gb: "get_build w b = Some bb"
    and gc: "get_build w c = Some bc"
    and dep: "dep_on_id bb = Some a" "dep_on_id bc = Some b"
    and st: "state ba = BUILD" "state bb = BUILD" "state bc = BUILD"
    and ne: "a \<noteq> c" "b \<noteq> c"
    and n: "length (artifact_builds w) < n"
  shows "\<exists>w1 w2. transition AT n w c (PInt DONE) r1 = Some (Inr w1)
           \<and> row_state w1 a = Some BUILD \<and> row_state w1 b = Some BUILD
           \<and> row_state w1 c = Some DONE
           \<and> transition AT n w1 a (PInt FAILED) r2 = Some (Inr w2)
           \<and> row_state w2 a = Some FAILED \<and> row_state w2 b = Some FAILED
           \<and> row_state w2 c = Some FAILED"
proof -
  obtain m where m: "n = Suc m" using n by (cases n) auto
  have codes: "BUILD \<noteq> DONE" "BUILD \<noteq> FAILED" "DONE \<noteq> FAILED"
    by (simp_all add: BUILD_def DONE_def FAILED_def)
  let ?f = "\<lambda>x. if ab_id x = c
                 then x\<lparr>state := DONE, state_reason := Some r1,
                        time_completed := (if DONE = DONE then Some (clock w (ticks w))
                                           else time_completed x)\<rparr>
                 else x"
  have nd: "state bc \<noteq> DONE" using st codes by simp
  obtain w1 where t1: "transition AT (Suc m) w c (PInt DONE) r1 = Some (Inr w1)"
    and ab: "artifact_builds w1 = map ?f (artifact_builds w)"
    and ev: "events w1 = events w" "clock w1 = clock w"
    using transition_plain[where s=DONE, OF _ ok gc nd, of m r1] by auto
  have c1: "cascaded DONE w w1" using update_cascaded[OF d gc nd ab ev] .
  have g1: "get_build w1 j = map_option ?f (get_build w j)" for j
    by (rule get_build_map[OF ab]) simp
  have ga1: "get_build w1 a = Some ba" using get_build_id[OF ga] ne by (simp add: g1 ga)
  have gb1: "get_build w1 b = Some bb" using get_build_id[OF gb] ne by (simp add: g1 gb)
  have gc1: "get_build w1 c = Some (?f bc)" by (simp add: g1 gc)
  have d1: "distinct (map ab_id (artifact_builds w1))" using d cascaded_ids[OF c1] by simp
  have ok1: "repr_ok AT w1" by (rule cascaded_repr_ok[OF c1 _ ok]) simp
  have "length (artifact_builds w1) < n" using n ab by simp
  then have cn: "count_not FAILED w1 < n" unfolding count_not_def
    by (meson le_less_trans length_filter_le)
  obtain w2 where t2: "transition AT n w1 a (PInt FAILED) r2 = Some (Inr w2)"
    and p: "cascade_post FAILED a w1 w2"
    using transition_cascade[where s=FAILED, OF _ d1 ok1 ga1 cn, of r2] by auto
  have ra: "cascade_reach w1 FAILED a a"
    using ga1 st codes by (intro cascade_reach.self[where b=ba]) simp_all
  have rb: "cascade_reach w1 FAILED a b"
    using gb1 st codes dep by (intro cascade_reach.child[OF ra, where b=bb]) simp_all
  have rc: "cascade_reach w1 FAILED a c"
    using get_build_id[OF gc] dep codes
    by (intro cascade_reach.child[OF rb gc1]) simp_all
  have "row_state w1 a = Some BUILD" "row_state w1 b = Some BUILD" "row_state w1 c = Some DONE"
    using ga1 gb1 gc1 st get_build_id[OF gc] by (simp_all add: row_state_def)
  then show ?thesis
    using t1 t2 m cascade_post_reach[OF p ra] cascade_post_reach[OF p rb]
      cascade_post_reach[OF p rc]
    by auto
qed

theorem chain_done_then_failed_witness:
  "\<exists>w1 w2. transition ArtifactType_sample 4 chain_world 3 (PInt DONE) ''built'' = Some (Inr w1)
           \<and> row_state w1 1 = Some BUILD \<and> row_state w1 2 = Some BUILD
           \<and> row_state w1 3 = Some DONE
           \<and> transition ArtifactType_sample 4 w1 1 (PInt FAILED) ''upstream error'' = Some (Inr w2)
           \<and> row_state w2 1 = Some FAILED \<and> row_state w2 2 = Some FAILED
           \<and> row_state w2 3 = Some FAILED"
  by (rule chain_done_then_failed[where ba=build_A and bb=build_B and bc=build_C])
     (simp_all add: scenario_defs model_defs repr_ok_def)

end
